theory Spec2Isabelle
  imports Main
begin

section \<open>Data model\<close>

text \<open>
  Values that the TypeScript source throws or passes to \<open>reject\<close>: \<open>reject('timeout')\<close>
  rejects with a plain string, \<open>throw new Error(m)\<close> with an \<open>Error\<close> object carrying
  the message \<open>m\<close>.
\<close>

datatype reason = Literal string | Error string

text \<open>
  The three states of a JavaScript promise. A promise settles once: \<open>resolve\<close> and
  \<open>reject\<close> on a promise that is no longer pending do nothing.
\<close>

datatype 'a promise = Pending | Resolved 'a | Rejected reason

fun resolve :: "'a promise \<Rightarrow> 'a \<Rightarrow> 'a promise" where
  "resolve Pending v = Resolved v"
| "resolve p v = p"

fun reject :: "'a promise \<Rightarrow> reason \<Rightarrow> 'a promise" where
  "reject Pending r = Rejected r"
| "reject p r = p"

text \<open>\<open>EventFilter\<close> and \<open>ClientConfig\<close>, with the fields the specification lists.\<close>

record EventFilter =
  kinds :: "int list"
  since :: int

record ClientConfig =
  kind :: int
  cfg_filter :: EventFilter
  req_timeout :: nat
  since_offset :: int
  start_delay :: nat

text \<open>
  \<open>Partial<EventFilter>\<close> and \<open>Partial<ClientConfig>\<close>: every field may be absent
  (\<open>None\<close>).
\<close>

record FilterOptions =
  opt_kinds :: "int list option"
  opt_since :: "int option"

record ClientOptions =
  opt_kind :: "int option"
  opt_filter :: "FilterOptions option"
  opt_req_timeout :: "nat option"
  opt_since_offset :: "int option"
  opt_start_delay :: "nat option"

text \<open>No option given: the constructor's default argument \<open>{}\<close>.\<close>

definition no_options :: ClientOptions where
  "no_options = \<lparr>opt_kind = None, opt_filter = None, opt_req_timeout = None,
     opt_since_offset = None, opt_start_delay = None\<rparr>"

record SignedEvent =
  ev_id :: string
  ev_pubkey :: string
  ev_content :: string
  ev_sig :: string
  ev_kind :: int
  ev_created_at :: int

datatype msg_type = Request | Accept | Reject | Other

text \<open>
  A decoded message. \<open>msg_method\<close> is read for request messages only; \<open>msg_env\<close> is the
  event the message came in.
\<close>

record Message =
  msg_type :: msg_type
  msg_id :: string
  msg_method :: string
  msg_env :: SignedEvent

text \<open>
  A message template as the callers of \<open>send\<close> and \<open>request\<close> build it: the source
  writes \<open>{ method: 'ping', id }\<close> and \<open>{ result: 'pong', id }\<close>. The id may be absent.
\<close>

record MessageTemplate =
  t_id :: "string option"
  t_method :: "string option"
  t_result :: "string option"

text \<open>The outcome of one relay's publish attempt, as \<open>Promise.allSettled\<close> reports it.\<close>

datatype settled = Fulfilled string | Failed string

record PublishResponse =
  acks :: "string list"
  fails :: "string list"
  ok :: bool

section \<open>Configuration\<close>

text \<open>
  \<open>DEFAULT_CONFIG\<close>; the argument is the value of \<open>now()\<close> at the call.
\<close>

definition DEFAULT_CONFIG :: "int \<Rightarrow> ClientConfig" where
  "DEFAULT_CONFIG now =
     \<lparr>kind = 24133,
      cfg_filter = \<lparr>kinds = [24133], since = now\<rparr>,
      req_timeout = 5000,
      since_offset = 5,
      start_delay = 2000\<rparr>"

text \<open>
  The object spread \<open>{ ...f, ...g }\<close> on filters: a field present in \<open>g\<close> wins, and
  spreading \<open>undefined\<close> adds nothing.
\<close>

fun spread_filter :: "EventFilter \<Rightarrow> FilterOptions option \<Rightarrow> EventFilter" where
  "spread_filter f None = f"
| "spread_filter f (Some g) =
     \<lparr>kinds = (case opt_kinds g of None \<Rightarrow> kinds f | Some k \<Rightarrow> k),
      since = (case opt_since g of None \<Rightarrow> since f | Some t \<Rightarrow> t)\<rparr>"

text \<open>
  \<open>get_node_config\<close>: the defaults, with the filter replaced by the merged filter. The
  returned object is \<open>{ ...config, filter }\<close>: nothing else of \<open>opt\<close> is read.
\<close>

definition get_node_config :: "int \<Rightarrow> ClientOptions \<Rightarrow> ClientConfig" where
  "get_node_config now opt =
     (let config = DEFAULT_CONFIG now;
          merged = spread_filter (cfg_filter config) (opt_filter opt)
      in config\<lparr>cfg_filter := merged\<rparr>)"

text \<open>\<open>get_filter_config\<close>, on the client's configuration.\<close>

definition get_filter_config :: "ClientConfig \<Rightarrow> FilterOptions option \<Rightarrow> EventFilter" where
  "get_filter_config config g = spread_filter (cfg_filter config) g"

section \<open>Aggregating publish receipts\<close>

text \<open>
  The loop of \<open>resolve_receipts\<close>, with the two arrays it pushes to as accumulators.
\<close>

fun receipts_loop :: "settled list \<Rightarrow> string list \<Rightarrow> string list \<Rightarrow> string list \<times> string list" where
  "receipts_loop [] as fs = (as, fs)"
| "receipts_loop (Fulfilled v # ps) as fs = receipts_loop ps (as @ [v]) fs"
| "receipts_loop (Failed r # ps) as fs = receipts_loop ps as (fs @ [r])"

definition resolve_receipts :: "settled list \<Rightarrow> PublishResponse" where
  "resolve_receipts ps =
     (case receipts_loop ps [] [] of
        (as, fs) \<Rightarrow> \<lparr>acks = as, fails = fs, ok = (length as > 0)\<rparr>)"

text \<open>
  What the claim about aggregation speaks of: the values of the fulfilled attempts and
  the reasons of the rejected ones, each in the order of the attempts.
\<close>

fun fulfilled_values :: "settled list \<Rightarrow> string list" where
  "fulfilled_values [] = []"
| "fulfilled_values (Fulfilled v # ps) = v # fulfilled_values ps"
| "fulfilled_values (Failed r # ps) = fulfilled_values ps"

fun rejected_reasons :: "settled list \<Rightarrow> string list" where
  "rejected_reasons [] = []"
| "rejected_reasons (Fulfilled v # ps) = rejected_reasons ps"
| "rejected_reasons (Failed r # ps) = r # rejected_reasons ps"

section \<open>The client and its surroundings\<close>

text \<open>
  What the client calls and does not define: the clock of \<open>now()\<close>, relay validation,
  the message id generator (a fresh value per call, indexed by a call counter), JSON
  serialisation, the envelope codec with the signer behind it, the error normaliser and
  the relay pool. \<open>verify_relays\<close> returns the error it throws, if any;
  \<open>pool_publish\<close> returns how each relay's publish attempt settles.
\<close>

record deps =
  now :: int
  verify_relays :: "string list \<Rightarrow> reason option"
  gen_message_id :: "nat \<Rightarrow> string"
  stringify :: "MessageTemplate \<Rightarrow> string"
  filter_json :: "EventFilter \<Rightarrow> string"
  create_envelope :: "int \<Rightarrow> string \<Rightarrow> string \<Rightarrow> reason + SignedEvent"
  decrypt_envelope :: "SignedEvent \<Rightarrow> reason + string"
  parse_message :: "string \<Rightarrow> SignedEvent \<Rightarrow> reason + Message"
  parse_error :: "reason \<Rightarrow> string"
  pool_publish :: "string list \<Rightarrow> SignedEvent \<Rightarrow> settled list"

text \<open>What the client emits on its own emitter.\<close>

datatype notification =
    NInfo string string
  | NEvent SignedEvent
  | NMessage Message
  | NError reason
  | NBounced string string
  | NReady
  | NClose

text \<open>
  Everything the client does to the outside, in program order: emissions on its own
  emitter and on the three inbox buses, timers and bus registrations it creates, and
  calls to the codec and the pool. \<open>CreateEnvelope k p r\<close> is the call
  \<open>create_envelope({ kind: k, tags: [] }, p, r, signer)\<close>. \<open>UnhandledRejection r\<close> is
  a promise that nobody holds being rejected with \<open>r\<close>.
\<close>

datatype effect =
    Emit notification
  | InboxAuthor string Message
  | InboxRequest string Message
  | InboxResponse string Message
  | SetTimeout nat
  | Within string nat
  | CreateEnvelope int string string
  | PoolPublish "string list" SignedEvent
  | PoolSubscribe "string list" EventFilter
  | SubClose
  | PoolClose "string list"
  | UnhandledRejection reason

text \<open>
  One call of \<open>request\<close> that got as far as its \<open>new Promise\<close>: the promise
  (\<open>receipt\<close>), the timer of \<open>setTimeout(() => reject('timeout'), timeout)\<close>
  (\<open>due\<close> is when it fires, \<open>timer_live\<close> whether it is still set) and the handler
  registered with \<open>inbox.response.within\<close> under \<open>key\<close> (\<open>listening\<close>: still
  registered). The closure of each call owns its timer and its promise, so each call is
  one entry.
\<close>

record PendingRequest =
  key :: string
  due :: nat
  timer_live :: bool
  listening :: bool
  receipt :: "Message promise"

text \<open>
  The client instance (\<open>config\<close> to \<open>sub\<close>, \<open>sub\<close> saying that \<open>_sub\<close> is not
  null), the promises handed out by \<open>connect\<close> that wait for \<open>ready\<close>, the pending
  requests, the calls of \<open>send\<close> whose promise was dropped and that wait at their
  \<open>await\<close> (\<open>dropped_sends\<close>: what the awaited \<open>create_event\<close> settles to, or
  \<open>None\<close> once the call has gone on), and the world around it: the time in
  milliseconds, the message templates on the heap (\<open>objs\<close>, by address, \<open>next_obj\<close>
  the next free address), the number of ids generated so far, and the effects so far.
\<close>

record client =
  config :: ClientConfig
  cfilter :: EventFilter
  pubkey :: string
  relays :: "string list"
  ready :: bool
  sub :: bool
  connects :: "unit promise list"
  pendings :: "PendingRequest list"
  dropped_sends :: "(reason + SignedEvent) option list"
  clock :: nat
  objs :: "nat \<Rightarrow> MessageTemplate"
  next_obj :: nat
  entropy :: nat
  trace :: "effect list"

record PublishedEvent = PublishResponse +
  event :: SignedEvent

text \<open>
  What a call of \<open>request\<close> gives back. \<open>request\<close> is an \<open>async\<close> function, so it
  always returns a promise: \<open>Thrown r\<close> is the promise rejected by a \<open>throw\<close> in the
  synchronous part of the body (before the first \<open>await\<close>; the promise is rejected
  when the call returns), \<open>Rejects r\<close> the promise rejected when the awaited
  \<open>create_event\<close> fails, \<open>Receipt p\<close> the promise of the pending request number \<open>p\<close>.
\<close>

datatype request_result = Thrown reason | Rejects reason | Receipt nat

text \<open>
  How a call ends for its caller: an exception thrown to the caller, or a value returned
  (for an \<open>async\<close> function, the promise).
\<close>

datatype 'a completion = ThrowsToCaller reason | ReturnsPromise 'a

section \<open>Emitting and time\<close>

text \<open>
  Modelled from the spec: the event emitter (\<open>./emitter.js\<close>), which the client extends
  and which its three inbox buses are instances of, is not among the sources. \<open>emit\<close>
  invokes the handlers registered under the key, synchronously, and is a no-op when there
  are none. The handlers of the application are not part of the client: an emission is
  recorded in the trace.
\<close>

definition log :: "effect \<Rightarrow> client \<Rightarrow> client" where
  "log e s = s\<lparr>trace := trace s @ [e]\<rparr>"

definition emit :: "notification \<Rightarrow> client \<Rightarrow> client" where
  "emit n s = log (Emit n) s"

text \<open>
  Modelled from the spec: the event bus (\<open>./emitter.js\<close>) is not among the sources.
  \<open>within(key, handler, timeoutMs)\<close> registers a one-shot handler that is removed
  when \<open>timeoutMs\<close> have passed without it firing; \<open>emit(key, payload)\<close> invokes the
  handlers registered under \<open>key\<close> and removes the one-shot ones. The handler that
  \<open>request\<close> registers runs \<open>clearTimeout(timer)\<close> and \<open>resolve(msg)\<close>.
\<close>

definition deliver :: "string \<Rightarrow> Message \<Rightarrow> PendingRequest \<Rightarrow> PendingRequest" where
  "deliver k m e =
     (if listening e \<and> key e = k
      then e\<lparr>timer_live := False, listening := False, receipt := resolve (receipt e) m\<rparr>
      else e)"

text \<open>
  What the timers of one pending request do once the clock shows \<open>t\<close>: the timer set
  by \<open>request\<close> runs \<open>reject('timeout')\<close> unless it was cleared, and the
  registration made by \<open>within\<close> expires. Both were set with the same delay, the
  rejecting one first.
\<close>

definition expire :: "nat \<Rightarrow> PendingRequest \<Rightarrow> PendingRequest" where
  "expire t e =
     (if due e \<le> t
      then (if timer_live e
            then e\<lparr>timer_live := False, listening := False,
                   receipt := reject (receipt e) (Literal ''timeout'')\<rparr>
            else e\<lparr>listening := False\<rparr>)
      else e)"

text \<open>\<open>d\<close> milliseconds pass; every timer that is due fires.\<close>

definition advance :: "nat \<Rightarrow> client \<Rightarrow> client" where
  "advance d s = s\<lparr>clock := clock s + d, pendings := map (expire (clock s + d)) (pendings s)\<rparr>"

definition inbox_author_emit :: "string \<Rightarrow> Message \<Rightarrow> client \<Rightarrow> client" where
  "inbox_author_emit k m s = log (InboxAuthor k m) s"

definition inbox_request_emit :: "string \<Rightarrow> Message \<Rightarrow> client \<Rightarrow> client" where
  "inbox_request_emit k m s = log (InboxRequest k m) s"

definition inbox_response_emit :: "string \<Rightarrow> Message \<Rightarrow> client \<Rightarrow> client" where
  "inbox_response_emit k m s =
     log (InboxResponse k m) (s\<lparr>pendings := map (deliver k m) (pendings s)\<rparr>)"

text \<open>An object literal: the template is put at the next free address.\<close>

definition alloc :: "MessageTemplate \<Rightarrow> client \<Rightarrow> client \<times> nat" where
  "alloc t s = (s\<lparr>objs := (objs s)(next_obj s := t), next_obj := Suc (next_obj s)\<rparr>, next_obj s)"

section \<open>The operations of the client\<close>

text \<open>
  The constructor. Time counts from construction, and no template is on the heap yet.
\<close>

definition NostrClient :: "deps \<Rightarrow> string \<Rightarrow> string list \<Rightarrow> ClientOptions \<Rightarrow> reason + client" where
  "NostrClient D pk rs options =
     (case verify_relays D rs of
        Some err \<Rightarrow> Inl err
      | None \<Rightarrow>
          (let cfg = get_node_config (now D) options;
               flt = get_filter_config cfg (opt_filter options)
           in Inr (emit (NInfo ''filter:'' (filter_json D flt))
                \<lparr>config = cfg, cfilter = flt, pubkey = pk, relays = rs, ready = False,
                 sub = False, connects = [], pendings = [], dropped_sends = [], clock = 0,
                 objs = (\<lambda>_. \<lparr>t_id = None, t_method = None, t_result = None\<rparr>),
                 next_obj = 0, entropy = 0, trace = []\<rparr>)))"

text \<open>
  \<open>create_event\<close> on the template at address \<open>a\<close>. \<open>message.id ??= gen_message_id()\<close>
  writes to the caller's object, and only when the id is null or undefined.
\<close>

definition create_event :: "deps \<Rightarrow> client \<Rightarrow> nat \<Rightarrow> string \<Rightarrow> client \<times> (reason + SignedEvent)" where
  "create_event D s a recipient =
     (let s1 = (case t_id (objs s a) of
                  None \<Rightarrow> s\<lparr>objs := (objs s)(a := (objs s a)\<lparr>t_id := Some (gen_message_id D (entropy s))\<rparr>),
                             entropy := Suc (entropy s)\<rparr>
                | Some i \<Rightarrow> s);
          payload = stringify D (objs s1 a)
      in (log (CreateEnvelope (kind (config s1)) payload recipient) s1,
          create_envelope D (kind (config s1)) payload recipient))"

text \<open>\<open>_publish\<close>: \<open>Promise.allSettled\<close> never rejects, so there is always a result.\<close>

definition publish :: "deps \<Rightarrow> client \<Rightarrow> SignedEvent \<Rightarrow> client \<times> PublishResponse" where
  "publish D s ev =
     (log (PoolPublish (relays s) ev) s, resolve_receipts (pool_publish D (relays s) ev))"

text \<open>
  \<open>send\<close> is suspended once, at \<open>await this.create_event(message, recipient)\<close>.
  \<open>send_resume\<close> is what it does when it goes on, with what \<open>create_event\<close> settled
  to: a rejection rejects the promise of \<open>send\<close>, an event is published.
\<close>

definition send_resume :: "deps \<Rightarrow> client \<Rightarrow> reason + SignedEvent \<Rightarrow> client \<times> (reason + PublishedEvent)" where
  "send_resume D s settled_event =
     (case settled_event of
        Inl err \<Rightarrow> (s, Inl err)
      | Inr ev \<Rightarrow>
          (case publish D s ev of
             (s2, res) \<Rightarrow> (s2, Inr (PublishResponse.extend res \<lparr>event = ev\<rparr>))))"

text \<open>\<open>send\<close>, for a caller that waits for its promise.\<close>

definition send :: "deps \<Rightarrow> client \<Rightarrow> nat \<Rightarrow> string \<Rightarrow> client \<times> (reason + PublishedEvent)" where
  "send D s a recipient =
     (case create_event D s a recipient of
        (s1, settled_event) \<Rightarrow> send_resume D s1 settled_event)"

text \<open>
  \<open>request\<close>. \<open>!message.id\<close> holds for an absent id and for the empty string. The key
  of the registration is \<open>message.id\<close>, which \<open>create_event\<close> has left as it was.
  The body is suspended once, at \<open>await this.create_event(...)\<close>; what follows runs on
  the state that \<open>create_event\<close> leaves, and in one piece: the executor of
  \<open>new Promise\<close> and the call of \<open>_publish\<close> are synchronous. The promise that
  \<open>_publish\<close> returns is dropped.
\<close>

definition request :: "deps \<Rightarrow> client \<Rightarrow> nat \<Rightarrow> string \<Rightarrow> client \<times> request_result" where
  "request D s a recipient =
     (case t_id (objs s a) of
        None \<Rightarrow> (s, Thrown (Error ''message id is required''))
      | Some i \<Rightarrow>
          if i = [] then (s, Thrown (Error ''message id is required''))
          else
            (case create_event D s a recipient of
               (s1, Inl err) \<Rightarrow> (s1, Rejects err)
             | (s1, Inr ev) \<Rightarrow>
                 (let timeout = req_timeout (config s1);
                      s2 = log (SetTimeout timeout) s1;
                      s3 = log (Within i timeout)
                             (s2\<lparr>pendings := pendings s2 @
                                [\<lparr>key = i, due = clock s2 + timeout, timer_live = True,
                                  listening = True, receipt = Pending\<rparr>]\<rparr>)
                  in (fst (publish D s3 ev), Receipt (length (pendings s2))))))"

text \<open>
  What the caller of \<open>request\<close> gets. \<open>request\<close> is declared \<open>async\<close>: a call of
  it never throws to its caller, it returns a promise, and a \<open>throw\<close> in the body
  rejects that promise.
\<close>

definition call_request :: "deps \<Rightarrow> client \<Rightarrow> nat \<Rightarrow> string \<Rightarrow> client \<times> request_result completion" where
  "call_request D s a recipient =
     (case request D s a recipient of (s1, res) \<Rightarrow> (s1, ReturnsPromise res))"

text \<open>
  \<open>ping\<close>: the call of \<open>request\<close> it makes, and what
  \<open>.then(res => res.type === 'accept').catch(_ => false)\<close> makes of the promise of
  that request.
\<close>

definition ping :: "deps \<Rightarrow> client \<Rightarrow> string \<Rightarrow> client \<times> request_result" where
  "ping D s recipient =
     (let msg_id = gen_message_id D (entropy s);
          s1 = s\<lparr>entropy := Suc (entropy s)\<rparr>
      in case alloc \<lparr>t_id = Some msg_id, t_method = Some ''ping'', t_result = None\<rparr> s1 of
           (s2, a) \<Rightarrow> request D s2 a recipient)"

fun request_promise :: "client \<Rightarrow> request_result \<Rightarrow> Message promise" where
  "request_promise s (Thrown r) = Rejected r"
| "request_promise s (Rejects r) = Rejected r"
| "request_promise s (Receipt p) =
     (if p < length (pendings s) then receipt (pendings s ! p) else Pending)"

fun then_accept_catch_false :: "Message promise \<Rightarrow> bool promise" where
  "then_accept_catch_false Pending = Pending"
| "then_accept_catch_false (Resolved res) = Resolved (msg_type res = Accept)"
| "then_accept_catch_false (Rejected r) = Resolved False"

definition ping_promise :: "client \<Rightarrow> request_result \<Rightarrow> bool promise" where
  "ping_promise s r = then_accept_catch_false (request_promise s r)"

text \<open>The template \<open>{ result: 'pong', id: message.id }\<close> that \<open>_pong\<close> builds.\<close>

definition pong_template :: "Message \<Rightarrow> MessageTemplate" where
  "pong_template m = \<lparr>t_id = Some (msg_id m), t_method = None, t_result = Some ''pong''\<rparr>"

text \<open>
  \<open>_pong\<close>: \<open>Assert.ok\<close> throws when the method is not \<open>ping\<close>. The call
  \<open>this.send(template, message.env.pubkey)\<close> runs as far as the \<open>await\<close> of \<open>send\<close>,
  that is through \<open>create_event\<close>, and returns a promise that \<open>_pong\<close> drops: the
  handler goes on, and the rest of \<open>send\<close> runs later, as a task of its own.
\<close>

definition pong :: "deps \<Rightarrow> client \<Rightarrow> Message \<Rightarrow> reason + client" where
  "pong D s m =
     (if msg_method m \<noteq> ''ping'' then Inl (Error ''invalid ping message'')
      else case alloc (pong_template m) s of
             (s1, a) \<Rightarrow>
               (case create_event D s1 a (ev_pubkey (msg_env m)) of
                  (s2, settled_event) \<Rightarrow>
                    Inr (s2\<lparr>dropped_sends := dropped_sends s2 @ [Some settled_event]\<rparr>)))"

text \<open>
  The dropped call of \<open>send\<close> number \<open>k\<close> goes on. Nobody holds its promise: its
  result is lost, and its rejection is an unhandled one.
\<close>

definition resume :: "deps \<Rightarrow> nat \<Rightarrow> client \<Rightarrow> client" where
  "resume D k s =
     (if k < length (dropped_sends s) then
        (case dropped_sends s ! k of
           None \<Rightarrow> s
         | Some settled_event \<Rightarrow>
             (case send_resume D (s\<lparr>dropped_sends := (dropped_sends s)[k := None]\<rparr>) settled_event of
                (s1, Inl err) \<Rightarrow> log (UnhandledRejection err) s1
              | (s1, Inr res) \<Rightarrow> s1))
      else s)"

text \<open>The first two statements of the \<open>try\<close> block of \<open>_handler\<close>.\<close>

definition decode :: "deps \<Rightarrow> SignedEvent \<Rightarrow> reason + Message" where
  "decode D ev =
     (case decrypt_envelope D ev of
        Inl err \<Rightarrow> Inl err
      | Inr payload \<Rightarrow> parse_message D payload ev)"

text \<open>The classification in the \<open>try\<close> block of \<open>_handler\<close>, up to the response inbox.\<close>

definition route :: "deps \<Rightarrow> client \<Rightarrow> Message \<Rightarrow> reason + client" where
  "route D s m =
     (if msg_type m = Request then
        (if msg_method m = ''ping'' then pong D s m
         else Inr (inbox_request_emit (msg_method m) m s))
      else if msg_type m = Accept \<or> msg_type m = Reject then
        Inr (inbox_response_emit (msg_id m) m s)
      else Inr s)"

text \<open>The \<open>catch\<close> block of \<open>_handler\<close>.\<close>

definition bounce :: "deps \<Rightarrow> SignedEvent \<Rightarrow> reason \<Rightarrow> client \<Rightarrow> client" where
  "bounce D ev err s = emit (NBounced (ev_id ev) (parse_error D err)) (emit (NError err) s)"

text \<open>
  \<open>_handler\<close>. An exception in the \<open>try\<close> block is caught; the only statement of
  \<open>route\<close> that can throw does so before it changes anything.
\<close>

definition handler :: "deps \<Rightarrow> client \<Rightarrow> SignedEvent \<Rightarrow> client" where
  "handler D s ev =
     (if ev_pubkey ev = pubkey s then s
      else
        (let s1 = emit (NEvent ev) s
         in case decode D ev of
              Inl err \<Rightarrow> bounce D ev err s1
            | Inr m \<Rightarrow>
                (case route D s1 m of
                   Inl err \<Rightarrow> bounce D ev err s1
                 | Inr s2 \<Rightarrow> emit (NMessage m) (inbox_author_emit (ev_pubkey (msg_env m)) m s2))))"

text \<open>\<open>_init\<close>: every handler registered with \<open>once('ready', ...)\<close> resolves its promise.\<close>

definition init :: "client \<Rightarrow> client" where
  "init s = emit NReady (s\<lparr>ready := True, connects := map (\<lambda>p. resolve p ()) (connects s)\<rparr>)"

definition subscribe :: "client \<Rightarrow> client" where
  "subscribe s = log (PoolSubscribe (relays s) (cfilter s)) (s\<lparr>sub := True\<rparr>)"

text \<open>
  \<open>connect\<close>: \<open>timeout ??= this.config.req_timeout\<close> assigns the parameter, which is
  not read again. The result is the number of the promise returned.
\<close>

definition connect :: "client \<Rightarrow> nat option \<Rightarrow> client \<times> nat" where
  "connect s timeout =
     (let timeout' = (case timeout of None \<Rightarrow> req_timeout (config s) | Some t \<Rightarrow> t);
          s1 = subscribe s
      in (s1\<lparr>connects := connects s1 @ [Pending]\<rparr>, length (connects s1)))"

definition close :: "client \<Rightarrow> client" where
  "close s =
     (let s1 = (if sub s then log SubClose s else s);
          s2 = log (PoolClose (relays s1)) s1
      in emit NClose (s2\<lparr>ready := False\<rparr>))"

section \<open>Runs of the client\<close>

text \<open>
  What can happen to a client, one thing at a time on its single thread: time passes, the
  pool delivers an event or the end of the stored events, a caller builds a template or
  calls an operation, a dropped call of \<open>send\<close> goes on.
\<close>

datatype action =
    Tick nat
  | Inbound SignedEvent
  | Eose
  | NewTemplate MessageTemplate
  | CallRequest nat string
  | CallPing string
  | CallSend nat string
  | CallConnect "nat option"
  | CallClose
  | Resume nat

fun step :: "deps \<Rightarrow> action \<Rightarrow> client \<Rightarrow> client" where
  "step D (Tick d) s = advance d s"
| "step D (Inbound ev) s = handler D s ev"
| "step D Eose s = init s"
| "step D (NewTemplate t) s = fst (alloc t s)"
| "step D (CallRequest a r) s = fst (request D s a r)"
| "step D (CallPing r) s = fst (ping D s r)"
| "step D (CallSend a r) s = fst (send D s a r)"
| "step D (CallConnect t) s = fst (connect s t)"
| "step D CallClose s = close s"
| "step D (Resume k) s = resume D k s"

fun run :: "deps \<Rightarrow> action list \<Rightarrow> client \<Rightarrow> client" where
  "run D [] s = s"
| "run D (a # as) s = run D as (step D a s)"

section \<open>A concrete client\<close>

text \<open>
  An instance of the surroundings and a client built by the constructor, to evaluate the
  operations on: identity \<open>me\<close>, relays \<open>r1\<close> (which acknowledges) and \<open>r2\<close> (which
  fails), a serialisation that writes the id of a template and, after \<open>=\<close>, its result
  if it has one, and a codec whose inbound payload is a letter for the type of the message
  followed by its id.
\<close>

definition demo_parse :: "string \<Rightarrow> SignedEvent \<Rightarrow> reason + Message" where
  "demo_parse payload ev =
     (case payload of
        [] \<Rightarrow> Inl (Error ''empty payload'')
      | c # rest \<Rightarrow>
          if c = CHR ''A'' then Inr \<lparr>msg_type = Accept, msg_id = rest, msg_method = [], msg_env = ev\<rparr>
          else if c = CHR ''R'' then Inr \<lparr>msg_type = Reject, msg_id = rest, msg_method = [], msg_env = ev\<rparr>
          else if c = CHR ''P'' then Inr \<lparr>msg_type = Request, msg_id = rest, msg_method = ''ping'', msg_env = ev\<rparr>
          else if c = CHR ''Q'' then Inr \<lparr>msg_type = Request, msg_id = rest, msg_method = ''sign_event'', msg_env = ev\<rparr>
          else Inl (Error ''unknown message''))"

definition demo_deps :: deps where
  "demo_deps =
     \<lparr>now = 1700000000,
      verify_relays = (\<lambda>rs. if rs = [] then Some (Error ''no relays'') else None),
      gen_message_id = (\<lambda>n. replicate (Suc n) CHR ''m''),
      stringify = (\<lambda>t. (case t_id t of None \<Rightarrow> ''?'' | Some i \<Rightarrow> i)
                        @ (case t_result t of None \<Rightarrow> [] | Some x \<Rightarrow> ''='' @ x)),
      filter_json = (\<lambda>f. ''filter''),
      create_envelope = (\<lambda>k payload recipient.
         if recipient = [] then Inl (Error ''no recipient'')
         else Inr \<lparr>ev_id = payload, ev_pubkey = ''me'', ev_content = payload, ev_sig = ''sig'',
                   ev_kind = k, ev_created_at = 0\<rparr>),
      decrypt_envelope = (\<lambda>ev. if ev_sig ev = ''sig'' then Inr (ev_content ev)
                                else Inl (Error ''bad signature'')),
      parse_message = demo_parse,
      parse_error = (\<lambda>r. case r of Literal x \<Rightarrow> x | Error x \<Rightarrow> x),
      pool_publish = (\<lambda>rs ev. map (\<lambda>r. if r = ''r1'' then Fulfilled r else Failed ''offline'') rs)\<rparr>"

definition demo_client :: client where
  "demo_client = projr (NostrClient demo_deps ''me'' [''r1'', ''r2''] no_options)"

definition demo_event :: "string \<Rightarrow> string \<Rightarrow> string \<Rightarrow> SignedEvent" where
  "demo_event author content sg =
     \<lparr>ev_id = ''e1'', ev_pubkey = author, ev_content = content, ev_sig = sg,
      ev_kind = 24133, ev_created_at = 0\<rparr>"

definition demo_template :: MessageTemplate where
  "demo_template = \<lparr>t_id = Some ''abc'', t_method = Some ''get_public_key'', t_result = None\<rparr>"

section \<open>Properties of the aggregation\<close>

lemma receipts_loop_eq:
  "receipts_loop ps as fs = (as @ fulfilled_values ps, fs @ rejected_reasons ps)"
  by (induction ps as fs rule: receipts_loop.induct) simp_all

text \<open>
  C4. For every list of settled publish attempts, \<open>resolve_receipts\<close> returns a result
  (it has no failing branch): its \<open>acks\<close> are the values of the fulfilled attempts in
  order, its \<open>fails\<close> the reasons of the rejected attempts in order, and \<open>ok\<close> says
  that \<open>acks\<close> is not empty. The list may be empty or all rejected: no hypothesis on
  the relay set is needed.
\<close>

theorem resolve_receipts_partition:
  "acks (resolve_receipts ps) = fulfilled_values ps
   \<and> fails (resolve_receipts ps) = rejected_reasons ps
   \<and> ok (resolve_receipts ps) = (length (acks (resolve_receipts ps)) > 0)"
  by (simp add: resolve_receipts_def receipts_loop_eq)

text \<open>Relays \<open>r1\<close> and \<open>r2\<close>, of which the first acknowledges and the second fails.\<close>

theorem resolve_receipts_partition_witness:
  "snd (publish demo_deps demo_client (demo_event ''me'' ''hello'' ''sig''))
     = \<lparr>acks = [''r1''], fails = [''offline''], ok = True\<rparr>"
proof -
  have "pool_publish demo_deps (relays demo_client) (demo_event ''me'' ''hello'' ''sig'')
      = [Fulfilled ''r1'', Failed ''offline'']"
    by (simp add: demo_deps_def demo_client_def NostrClient_def emit_def log_def Let_def)
  with resolve_receipts_partition [of "[Fulfilled ''r1'', Failed ''offline'']"]
  show ?thesis by (simp add: publish_def)
qed

section \<open>Properties of the configuration\<close>

text \<open>
  C3. Whatever options the caller gives, the top-level fields of the configuration that
  \<open>get_node_config\<close> returns are the defaults: an override of \<open>kind\<close>,
  \<open>req_timeout\<close>, \<open>since_offset\<close> or \<open>start_delay\<close> is dropped. With
  \<open>req_timeout: 1000\<close> as the only option, the configured timeout is 5000, not 1000.
\<close>

theorem get_node_config_keeps_defaults:
  "kind (get_node_config t opt) = 24133
   \<and> req_timeout (get_node_config t opt) = 5000
   \<and> since_offset (get_node_config t opt) = 5
   \<and> start_delay (get_node_config t opt) = 2000
   \<and> req_timeout (get_node_config t (no_options\<lparr>opt_req_timeout := Some 1000\<rparr>)) \<noteq> 1000"
  by (simp add: get_node_config_def DEFAULT_CONFIG_def Let_def)

section \<open>What each operation leaves alone\<close>

lemma log_fields [simp]:
  "config (log e s) = config s" "pendings (log e s) = pendings s"
  "connects (log e s) = connects s" "clock (log e s) = clock s"
  "relays (log e s) = relays s" "pubkey (log e s) = pubkey s"
  "objs (log e s) = objs s" "next_obj (log e s) = next_obj s" "entropy (log e s) = entropy s"
  "ready (log e s) = ready s" "sub (log e s) = sub s" "cfilter (log e s) = cfilter s"
  "dropped_sends (log e s) = dropped_sends s"
  "trace (log e s) = trace s @ [e]"
  by (simp_all add: log_def)

lemma emit_fields [simp]:
  "config (emit n s) = config s" "pendings (emit n s) = pendings s"
  "connects (emit n s) = connects s" "clock (emit n s) = clock s"
  "relays (emit n s) = relays s" "pubkey (emit n s) = pubkey s"
  "objs (emit n s) = objs s" "next_obj (emit n s) = next_obj s" "entropy (emit n s) = entropy s"
  "ready (emit n s) = ready s" "sub (emit n s) = sub s" "cfilter (emit n s) = cfilter s"
  "dropped_sends (emit n s) = dropped_sends s"
  "trace (emit n s) = trace s @ [Emit n]"
  by (simp_all add: emit_def)

lemma alloc_fields [simp]:
  "config (fst (alloc t s)) = config s" "pendings (fst (alloc t s)) = pendings s"
  "connects (fst (alloc t s)) = connects s" "clock (fst (alloc t s)) = clock s"
  "relays (fst (alloc t s)) = relays s" "pubkey (fst (alloc t s)) = pubkey s"
  "trace (fst (alloc t s)) = trace s" "entropy (fst (alloc t s)) = entropy s"
  "dropped_sends (fst (alloc t s)) = dropped_sends s"
  "objs (fst (alloc t s)) (snd (alloc t s)) = t"
  by (simp_all add: alloc_def)

lemma create_event_fields [simp]:
  "config (fst (create_event D s a r)) = config s"
  "pendings (fst (create_event D s a r)) = pendings s"
  "connects (fst (create_event D s a r)) = connects s"
  "clock (fst (create_event D s a r)) = clock s"
  "relays (fst (create_event D s a r)) = relays s"
  "pubkey (fst (create_event D s a r)) = pubkey s"
  "dropped_sends (fst (create_event D s a r)) = dropped_sends s"
  by (simp_all add: create_event_def Let_def split: option.splits)

lemma create_event_trace:
  "trace (fst (create_event D s a r)) =
     trace s @ [CreateEnvelope (kind (config s)) (stringify D (objs (fst (create_event D s a r)) a)) r]"
  by (simp add: create_event_def Let_def split: option.splits)

lemma create_event_snd:
  "snd (create_event D s a r) =
     create_envelope D (kind (config s)) (stringify D (objs (fst (create_event D s a r)) a)) r"
  by (simp add: create_event_def Let_def split: option.splits)

lemma publish_fields [simp]:
  "config (fst (publish D s ev)) = config s"
  "pendings (fst (publish D s ev)) = pendings s"
  "connects (fst (publish D s ev)) = connects s"
  "clock (fst (publish D s ev)) = clock s"
  "relays (fst (publish D s ev)) = relays s"
  "pubkey (fst (publish D s ev)) = pubkey s"
  "trace (fst (publish D s ev)) = trace s @ [PoolPublish (relays s) ev]"
  by (simp_all add: publish_def)

lemma send_fst:
  "fst (send D s a r) =
     (case snd (create_event D s a r) of
        Inl err \<Rightarrow> fst (create_event D s a r)
      | Inr ev \<Rightarrow> fst (publish D (fst (create_event D s a r)) ev))"
  by (simp add: send_def send_resume_def split: prod.splits sum.splits)

lemma send_fields [simp]:
  "config (fst (send D s a r)) = config s"
  "pendings (fst (send D s a r)) = pendings s"
  "connects (fst (send D s a r)) = connects s"
  "clock (fst (send D s a r)) = clock s"
  "relays (fst (send D s a r)) = relays s"
  "pubkey (fst (send D s a r)) = pubkey s"
  by (simp_all add: send_fst split: sum.splits)

lemma send_trace:
  "trace (fst (send D s a r)) =
     trace s @ CreateEnvelope (kind (config s)) (stringify D (objs (fst (create_event D s a r)) a)) r
       # (case snd (create_event D s a r) of Inl err \<Rightarrow> [] | Inr ev \<Rightarrow> [PoolPublish (relays s) ev])"
  by (simp add: send_fst create_event_trace split: sum.splits)

lemma request_cases:
  "request D s a r =
     (if t_id (objs s a) = None \<or> t_id (objs s a) = Some []
      then (s, Thrown (Error ''message id is required''))
      else case snd (create_event D s a r) of
             Inl err \<Rightarrow> (fst (create_event D s a r), Rejects err)
           | Inr ev \<Rightarrow>
               (fst (publish D
                  (log (Within (the (t_id (objs s a))) (req_timeout (config s)))
                     (log (SetTimeout (req_timeout (config s))) (fst (create_event D s a r))
                        \<lparr>pendings := pendings s @
                           [\<lparr>key = the (t_id (objs s a)), due = clock s + req_timeout (config s),
                             timer_live = True, listening = True, receipt = Pending\<rparr>]\<rparr>)) ev),
                Receipt (length (pendings s))))"
proof (cases "create_event D s a r")
  case (Pair s1 y)
  then have "config s1 = config s" "pendings s1 = pendings s" "clock s1 = clock s"
    using create_event_fields [of D s a r] by simp_all
  with Pair show ?thesis
    by (simp add: request_def Let_def split: option.splits sum.splits)
qed

lemma request_fields [simp]:
  "config (fst (request D s a r)) = config s"
  "connects (fst (request D s a r)) = connects s"
  "clock (fst (request D s a r)) = clock s"
  "relays (fst (request D s a r)) = relays s"
  "pubkey (fst (request D s a r)) = pubkey s"
  by (simp_all add: request_cases split: sum.splits)

lemma request_pendings:
  "pendings (fst (request D s a r)) =
     (case snd (request D s a r) of
        Receipt p \<Rightarrow> pendings s @
          [\<lparr>key = the (t_id (objs s a)), due = clock s + req_timeout (config s),
            timer_live = True, listening = True, receipt = Pending\<rparr>]
      | _ \<Rightarrow> pendings s)"
  by (simp add: request_cases split: sum.splits)


lemma request_trace:
  "\<exists>tr. trace (fst (request D s a r)) = trace s @ tr \<and> (\<forall>k m. InboxResponse k m \<notin> set tr)"
  by (simp add: request_cases create_event_trace split: sum.splits)

lemma ping_fst:
  "fst (ping D s r) =
     fst (request D (fst (alloc \<lparr>t_id = Some (gen_message_id D (entropy s)), t_method = Some ''ping'',
                                  t_result = None\<rparr> (s\<lparr>entropy := Suc (entropy s)\<rparr>)))
            (next_obj s) r)"
  by (simp add: ping_def Let_def alloc_def)

lemma ping_fields [simp]:
  "config (fst (ping D s r)) = config s"
  "connects (fst (ping D s r)) = connects s"
  "clock (fst (ping D s r)) = clock s"
  "relays (fst (ping D s r)) = relays s"
  "pubkey (fst (ping D s r)) = pubkey s"
  by (simp_all add: ping_fst)

lemma ping_trace:
  "\<exists>tr. trace (fst (ping D s r)) = trace s @ tr \<and> (\<forall>k m. InboxResponse k m \<notin> set tr)"
proof -
  let ?s1 = "fst (alloc \<lparr>t_id = Some (gen_message_id D (entropy s)), t_method = Some ''ping'',
                        t_result = None\<rparr> (s\<lparr>entropy := Suc (entropy s)\<rparr>))"
  have "trace ?s1 = trace s" by simp
  with request_trace [of D ?s1 "next_obj s" r] show ?thesis by (simp add: ping_fst)
qed

lemma inbox_fields [simp]:
  "config (inbox_author_emit k m s) = config s" "pendings (inbox_author_emit k m s) = pendings s"
  "connects (inbox_author_emit k m s) = connects s" "clock (inbox_author_emit k m s) = clock s"
  "relays (inbox_author_emit k m s) = relays s" "pubkey (inbox_author_emit k m s) = pubkey s"
  "trace (inbox_author_emit k m s) = trace s @ [InboxAuthor k m]"
  "config (inbox_request_emit k m s) = config s" "pendings (inbox_request_emit k m s) = pendings s"
  "connects (inbox_request_emit k m s) = connects s" "clock (inbox_request_emit k m s) = clock s"
  "relays (inbox_request_emit k m s) = relays s" "pubkey (inbox_request_emit k m s) = pubkey s"
  "trace (inbox_request_emit k m s) = trace s @ [InboxRequest k m]"
  "config (inbox_response_emit k m s) = config s"
  "pendings (inbox_response_emit k m s) = map (deliver k m) (pendings s)"
  "connects (inbox_response_emit k m s) = connects s" "clock (inbox_response_emit k m s) = clock s"
  "relays (inbox_response_emit k m s) = relays s" "pubkey (inbox_response_emit k m s) = pubkey s"
  "trace (inbox_response_emit k m s) = trace s @ [InboxResponse k m]"
  by (simp_all add: inbox_author_emit_def inbox_request_emit_def inbox_response_emit_def)

lemma bounce_fields [simp]:
  "config (bounce D ev err s) = config s" "pendings (bounce D ev err s) = pendings s"
  "connects (bounce D ev err s) = connects s" "clock (bounce D ev err s) = clock s"
  "relays (bounce D ev err s) = relays s" "pubkey (bounce D ev err s) = pubkey s"
  "trace (bounce D ev err s) = trace s @ [Emit (NError err), Emit (NBounced (ev_id ev) (parse_error D err))]"
  by (simp_all add: bounce_def)

lemma pong_Inr:
  assumes "pong D s m = Inr s'"
  shows "config s' = config s \<and> pendings s' = pendings s \<and> connects s' = connects s
     \<and> clock s' = clock s \<and> relays s' = relays s \<and> pubkey s' = pubkey s
     \<and> (\<exists>new. dropped_sends s' = dropped_sends s @ new)
     \<and> (\<exists>tr. trace s' = trace s @ tr \<and> (\<forall>k x. InboxResponse k x \<notin> set tr \<and> InboxRequest k x \<notin> set tr))"
proof -
  let ?s1 = "fst (alloc (pong_template m) s)"
  let ?c = "create_event D ?s1 (next_obj s) (ev_pubkey (msg_env m))"
  have "pong D s m = Inr ((fst ?c)\<lparr>dropped_sends := dropped_sends (fst ?c) @ [Some (snd ?c)]\<rparr>)"
    using assms by (cases ?c) (simp add: pong_def alloc_def split: if_splits)
  with assms have s': "s' = (fst ?c)\<lparr>dropped_sends := dropped_sends (fst ?c) @ [Some (snd ?c)]\<rparr>"
    by simp
  show ?thesis
    by (simp add: s' create_event_trace)
qed

lemma route_Inr:
  "route D s m = Inr s' \<Longrightarrow>
     config s' = config s \<and> connects s' = connects s
     \<and> clock s' = clock s \<and> relays s' = relays s \<and> pubkey s' = pubkey s
     \<and> (\<exists>new. dropped_sends s' = dropped_sends s @ new)
     \<and> (\<exists>tr. trace s' = trace s @ tr)
     \<and> (pendings s' = pendings s
          \<or> pendings s' = map (deliver (msg_id m) m) (pendings s)
            \<and> trace s' = trace s @ [InboxResponse (msg_id m) m])"
  by (auto simp: route_def inbox_request_emit_def inbox_response_emit_def
      split: if_splits dest!: pong_Inr)

lemma handler_fields [simp]:
  "config (handler D s ev) = config s"
  "connects (handler D s ev) = connects s"
  "clock (handler D s ev) = clock s"
  "relays (handler D s ev) = relays s"
  "pubkey (handler D s ev) = pubkey s"
  by (auto simp: handler_def Let_def split: sum.splits dest!: route_Inr)

lemma handler_trace: "\<exists>tr. trace (handler D s ev) = trace s @ tr"
  by (auto simp: handler_def Let_def split: sum.splits dest!: route_Inr)

lemma handler_pendings:
  "pendings (handler D s ev) = pendings s
   \<or> (\<exists>m tr. pendings (handler D s ev) = map (deliver (msg_id m) m) (pendings s)
        \<and> trace (handler D s ev) = trace s @ tr \<and> InboxResponse (msg_id m) m \<in> set tr)"
proof (cases "ev_pubkey ev = pubkey s")
  case True then show ?thesis by (simp add: handler_def)
next
  case False
  show ?thesis
  proof (cases "decode D ev")
    case (Inl err) with False show ?thesis by (simp add: handler_def)
  next
    case (Inr m)
    show ?thesis
    proof (cases "route D (emit (NEvent ev) s) m")
      case (Inl err) with False Inr show ?thesis by (simp add: handler_def)
    next
      case r: (Inr s2)
      have h: "handler D s ev = emit (NMessage m) (inbox_author_emit (ev_pubkey (msg_env m)) m s2)"
        using False Inr r by (simp add: handler_def)
      from route_Inr [OF r]
      consider "pendings s2 = pendings s"
        | "pendings s2 = map (deliver (msg_id m) m) (pendings s)"
          "trace s2 = trace s @ [Emit (NEvent ev), InboxResponse (msg_id m) m]"
        by auto
      then show ?thesis
      proof cases
        case 1 then show ?thesis by (simp add: h)
      next
        case 2
        then have "pendings (handler D s ev) = map (deliver (msg_id m) m) (pendings s)"
          and "trace (handler D s ev) = trace s @ [Emit (NEvent ev), InboxResponse (msg_id m) m,
                  InboxAuthor (ev_pubkey (msg_env m)) m, Emit (NMessage m)]"
          by (simp_all add: h)
        then show ?thesis by (intro disjI2 exI conjI) (assumption, assumption, simp)
      qed
    qed
  qed
qed

lemma init_fields [simp]:
  "config (init s) = config s" "pendings (init s) = pendings s" "clock (init s) = clock s"
  "relays (init s) = relays s" "pubkey (init s) = pubkey s"
  "connects (init s) = map (\<lambda>p. resolve p ()) (connects s)"
  "trace (init s) = trace s @ [Emit NReady]" "ready (init s)"
  by (simp_all add: init_def)

lemma connect_fields [simp]:
  "config (fst (connect s t)) = config s" "pendings (fst (connect s t)) = pendings s"
  "clock (fst (connect s t)) = clock s"
  "relays (fst (connect s t)) = relays s" "pubkey (fst (connect s t)) = pubkey s"
  "connects (fst (connect s t)) = connects s @ [Pending]"
  "snd (connect s t) = length (connects s)"
  "trace (fst (connect s t)) = trace s @ [PoolSubscribe (relays s) (cfilter s)]"
  by (simp_all add: connect_def subscribe_def Let_def)

lemma close_fields [simp]:
  "config (close s) = config s" "pendings (close s) = pendings s" "clock (close s) = clock s"
  "relays (close s) = relays s" "pubkey (close s) = pubkey s"
  "connects (close s) = connects s"
  by (simp_all add: close_def Let_def)

lemma close_trace: "\<exists>tr. trace (close s) = trace s @ tr \<and> (\<forall>k m. InboxResponse k m \<notin> set tr)"
  by (simp add: close_def Let_def)

lemma advance_fields [simp]:
  "config (advance d s) = config s" "clock (advance d s) = clock s + d"
  "pendings (advance d s) = map (expire (clock s + d)) (pendings s)"
  "relays (advance d s) = relays s" "pubkey (advance d s) = pubkey s"
  "connects (advance d s) = connects s" "trace (advance d s) = trace s"
  by (simp_all add: advance_def)

lemma send_resume_fields [simp]:
  "config (fst (send_resume D s x)) = config s"
  "pendings (fst (send_resume D s x)) = pendings s"
  "connects (fst (send_resume D s x)) = connects s"
  "clock (fst (send_resume D s x)) = clock s"
  "relays (fst (send_resume D s x)) = relays s"
  "pubkey (fst (send_resume D s x)) = pubkey s"
  "dropped_sends (fst (send_resume D s x)) = dropped_sends s"
  by (simp_all add: send_resume_def publish_def split: sum.splits prod.splits)

lemma send_resume_trace:
  "trace (fst (send_resume D s x)) =
     trace s @ (case x of Inl err \<Rightarrow> [] | Inr ev \<Rightarrow> [PoolPublish (relays s) ev])"
  by (simp add: send_resume_def publish_def split: sum.splits prod.splits)

lemma resume_eq:
  "resume D k s =
     (if k < length (dropped_sends s) then
        (case dropped_sends s ! k of
           None \<Rightarrow> s
         | Some x \<Rightarrow>
             (case x of
                Inl err \<Rightarrow> log (UnhandledRejection err) (s\<lparr>dropped_sends := (dropped_sends s)[k := None]\<rparr>)
              | Inr ev \<Rightarrow> log (PoolPublish (relays s) ev) (s\<lparr>dropped_sends := (dropped_sends s)[k := None]\<rparr>)))
      else s)"
  by (simp add: resume_def send_resume_def publish_def split: option.splits sum.splits)

lemma resume_fields [simp]:
  "config (resume D k s) = config s" "pendings (resume D k s) = pendings s"
  "connects (resume D k s) = connects s" "clock (resume D k s) = clock s"
  "relays (resume D k s) = relays s" "pubkey (resume D k s) = pubkey s"
  by (simp_all add: resume_eq split: option.splits sum.splits)

lemma resume_trace:
  "\<exists>tr. trace (resume D k s) = trace s @ tr \<and> (\<forall>k m. InboxResponse k m \<notin> set tr)"
  by (simp add: resume_eq split: option.splits sum.splits)

lemma step_config [simp]: "config (step D a s) = config s"
  by (cases a) simp_all

lemma run_config [simp]: "config (run D as s) = config s"
  by (induction as arbitrary: s) simp_all

lemma step_relays [simp]: "relays (step D a s) = relays s"
  by (cases a) simp_all

lemma run_relays [simp]: "relays (run D as s) = relays s"
  by (induction as arbitrary: s) simp_all

lemma step_clock: "clock (step D a s) = clock s + (case a of Tick d \<Rightarrow> d | _ \<Rightarrow> 0)"
  by (cases a) simp_all

lemma step_trace: "\<exists>tr. trace (step D a s) = trace s @ tr"
proof (cases a)
  case (Inbound ev) then show ?thesis using handler_trace by simp
next
  case (CallRequest x r) then show ?thesis using request_trace [of D s x r] by auto
next
  case (CallPing r) then show ?thesis using ping_trace [of D s r] by auto
next
  case (CallSend x r) then show ?thesis by (simp add: send_trace)
next
  case CallClose then show ?thesis using close_trace [of s] by auto
next
  case (Resume k) then show ?thesis using resume_trace [of D k s] by auto
qed simp_all

lemma run_trace: "\<exists>tr. trace (run D as s) = trace s @ tr"
proof (induction as arbitrary: s)
  case Nil show ?case by simp
next
  case (Cons a as)
  obtain t1 where "trace (step D a s) = trace s @ t1" using step_trace by blast
  moreover obtain t2 where "trace (run D as (step D a s)) = trace (step D a s) @ t2"
    using Cons by blast
  ultimately show ?case by simp
qed

text \<open>How one step treats the pending requests.\<close>

lemma step_pendings:
  "(\<exists>new. pendings (step D a s) = pendings s @ new)
   \<or> (\<exists>d. a = Tick d \<and> pendings (step D a s) = map (expire (clock s + d)) (pendings s))
   \<or> (\<exists>m tr. pendings (step D a s) = map (deliver (msg_id m) m) (pendings s)
        \<and> trace (step D a s) = trace s @ tr \<and> InboxResponse (msg_id m) m \<in> set tr)"
proof (cases a)
  case (Inbound ev) then show ?thesis using handler_pendings [of D s ev] by auto
next
  case (CallRequest x r) then show ?thesis by (simp add: request_pendings split: request_result.splits)
next
  case (CallPing r) then show ?thesis
    by (simp add: ping_fst request_pendings split: request_result.splits)
qed simp_all

section \<open>Pending requests along a run\<close>

text \<open>A settled promise keeps its state.\<close>

lemma deliver_kept [simp]:
  "key (deliver k m e) = key e" "due (deliver k m e) = due e"
  by (simp_all add: deliver_def)

lemma expire_kept [simp]:
  "key (expire t e) = key e" "due (expire t e) = due e"
  by (simp_all add: expire_def)

lemma deliver_settled: "receipt e \<noteq> Pending \<Longrightarrow> receipt (deliver k m e) = receipt e"
  by (cases "receipt e") (simp_all add: deliver_def)

lemma expire_settled: "receipt e \<noteq> Pending \<Longrightarrow> receipt (expire t e) = receipt e"
  by (cases "receipt e") (simp_all add: expire_def)

lemma deliver_other: "key e \<noteq> k \<Longrightarrow> deliver k m e = e"
  by (simp add: deliver_def)

lemma step_length: "length (pendings s) \<le> length (pendings (step D a s))"
  using step_pendings [of D a s] by auto

lemma step_settled:
  assumes "p < length (pendings s)" and "receipt (pendings s ! p) \<noteq> Pending"
  shows "receipt (pendings (step D a s) ! p) = receipt (pendings s ! p)"
  using step_pendings [of D a s] assms
  by (auto simp: nth_append deliver_settled expire_settled)

lemma run_length: "length (pendings s) \<le> length (pendings (run D as s))"
proof (induction as arbitrary: s)
  case Nil show ?case by simp
next
  case (Cons a as)
  from step_length [of s D a] Cons [of "step D a s"] show ?case by simp
qed

lemma run_settled:
  assumes "p < length (pendings s)" and "receipt (pendings s ! p) \<noteq> Pending"
  shows "receipt (pendings (run D as s) ! p) = receipt (pendings s ! p)"
  using assms
proof (induction as arbitrary: s)
  case Nil show ?case by simp
next
  case (Cons a as)
  have "p < length (pendings (step D a s))" using Cons.prems(1) step_length [of s D a] by simp
  moreover have "receipt (pendings (step D a s) ! p) = receipt (pendings s ! p)"
    using Cons.prems by (rule step_settled)
  ultimately show ?case using Cons.IH [of "step D a s"] Cons.prems(2) by simp
qed

text \<open>The request is waiting, or its timer has rejected it.\<close>

lemma expire_quiet:
  assumes "receipt e = Pending \<and> timer_live e \<or> receipt e = Rejected (Literal ''timeout'')"
  shows "receipt (expire t e) = Pending \<and> timer_live (expire t e)
         \<or> receipt (expire t e) = Rejected (Literal ''timeout'')"
  using assms by (auto simp: expire_def)

lemma expire_due:
  assumes "receipt e = Pending \<and> timer_live e \<or> receipt e = Rejected (Literal ''timeout'')"
    and "due e \<le> t"
  shows "receipt (expire t e) = Rejected (Literal ''timeout'')"
  using assms by (auto simp: expire_def)

lemma step_quiet:
  assumes p: "p < length (pendings s)" and k: "key (pendings s ! p) = X"
    and w: "receipt (pendings s ! p) = Pending \<and> timer_live (pendings s ! p)
         \<or> receipt (pendings s ! p) = Rejected (Literal ''timeout'')"
    and tr: "trace (step D a s) = trace s @ tr" and q: "\<forall>m. InboxResponse X m \<notin> set tr"
  shows "key (pendings (step D a s) ! p) = X
    \<and> due (pendings (step D a s) ! p) = due (pendings s ! p)
    \<and> (receipt (pendings (step D a s) ! p) = Pending \<and> timer_live (pendings (step D a s) ! p)
        \<or> receipt (pendings (step D a s) ! p) = Rejected (Literal ''timeout''))"
proof -
  consider new where "pendings (step D a s) = pendings s @ new"
    | d where "pendings (step D a s) = map (expire (clock s + d)) (pendings s)"
    | m tr' where "pendings (step D a s) = map (deliver (msg_id m) m) (pendings s)"
        "trace (step D a s) = trace s @ tr'" "InboxResponse (msg_id m) m \<in> set tr'"
    using step_pendings [of D a s] by blast
  then show ?thesis
  proof cases
    case 1 with p k w show ?thesis by (simp add: nth_append)
  next
    case 2 with p k expire_quiet [OF w] show ?thesis by simp
  next
    case 3
    from 3(2) tr have "tr' = tr" by simp
    with 3(3) q have "msg_id m \<noteq> X" by auto
    with k have "deliver (msg_id m) m (pendings s ! p) = pendings s ! p"
      by (simp add: deliver_other)
    with 3(1) p k w show ?thesis by simp
  qed
qed

lemma run_quiet:
  assumes "p < length (pendings s)" and "key (pendings s ! p) = X"
    and "receipt (pendings s ! p) = Pending \<and> timer_live (pendings s ! p)
         \<or> receipt (pendings s ! p) = Rejected (Literal ''timeout'')"
    and "trace (run D as s) = trace s @ tr" and "\<forall>m. InboxResponse X m \<notin> set tr"
  shows "due (pendings (run D as s) ! p) = due (pendings s ! p)
    \<and> (receipt (pendings (run D as s) ! p) = Pending \<and> timer_live (pendings (run D as s) ! p)
        \<or> receipt (pendings (run D as s) ! p) = Rejected (Literal ''timeout''))"
  using assms
proof (induction as arbitrary: s tr)
  case Nil then show ?case by simp
next
  case (Cons a as)
  obtain t1 where t1: "trace (step D a s) = trace s @ t1" using step_trace by blast
  obtain t2 where t2: "trace (run D as (step D a s)) = trace (step D a s) @ t2"
    using run_trace by blast
  from t1 t2 Cons.prems(4) have "tr = t1 @ t2" by simp
  with Cons.prems(5) have q1: "\<forall>m. InboxResponse X m \<notin> set t1"
    and q2: "\<forall>m. InboxResponse X m \<notin> set t2" by auto
  note st = step_quiet [OF Cons.prems(1,2,3) t1 q1]
  have len: "p < length (pendings (step D a s))"
    using Cons.prems(1) step_length [of s D a] by simp
  from Cons.IH [OF len _ _ t2 q2] st show ?case by simp
qed

lemma step_kept:
  assumes "p < length (pendings s)"
  shows "key (pendings (step D a s) ! p) = key (pendings s ! p)
       \<and> due (pendings (step D a s) ! p) = due (pendings s ! p)"
  using step_pendings [of D a s] assms by (auto simp: nth_append)

lemma run_kept:
  assumes "p < length (pendings s)"
  shows "key (pendings (run D as s) ! p) = key (pendings s ! p)
       \<and> due (pendings (run D as s) ! p) = due (pendings s ! p)"
  using assms
proof (induction as arbitrary: s)
  case Nil show ?case by simp
next
  case (Cons a as)
  have "p < length (pendings (step D a s))" using Cons.prems step_length [of s D a] by simp
  from Cons.IH [OF this] step_kept [OF Cons.prems, of D a] show ?case by simp
qed

lemma run_append: "run D (as @ bs) s = run D bs (run D as s)"
  by (induction as arbitrary: s) simp_all

lemma run_clock: "clock s \<le> clock (run D as s)"
proof (induction as arbitrary: s)
  case Nil show ?case by simp
next
  case (Cons a as)
  have "clock s \<le> clock (step D a s)" by (simp add: step_clock)
  with Cons [of "step D a s"] show ?case by simp
qed

text \<open>A pending promise still has its timer.\<close>

lemma deliver_armed:
  "(receipt e = Pending \<longrightarrow> timer_live e)
   \<Longrightarrow> (receipt (deliver k m e) = Pending \<longrightarrow> timer_live (deliver k m e))"
  by (cases "receipt e") (simp_all add: deliver_def)

lemma expire_armed:
  "(receipt e = Pending \<longrightarrow> timer_live e)
   \<Longrightarrow> (receipt (expire t e) = Pending \<longrightarrow> timer_live (expire t e))"
  by (cases "receipt e") (simp_all add: expire_def)

lemma expire_settles:
  "(receipt e = Pending \<longrightarrow> timer_live e) \<Longrightarrow> due e \<le> t \<Longrightarrow> receipt (expire t e) \<noteq> Pending"
  by (cases "receipt e") (simp_all add: expire_def)

lemma step_armed:
  assumes "p < length (pendings s)"
    and "receipt (pendings s ! p) = Pending \<longrightarrow> timer_live (pendings s ! p)"
  shows "receipt (pendings (step D a s) ! p) = Pending \<longrightarrow> timer_live (pendings (step D a s) ! p)"
proof -
  consider new where "pendings (step D a s) = pendings s @ new"
    | d where "pendings (step D a s) = map (expire (clock s + d)) (pendings s)"
    | m where "pendings (step D a s) = map (deliver (msg_id m) m) (pendings s)"
    using step_pendings [of D a s] by blast
  then show ?thesis
  proof cases
    case 1 with assms show ?thesis by (simp add: nth_append)
  next
    case 2 with assms(1) expire_armed [OF assms(2)] show ?thesis by simp
  next
    case 3 with assms(1) deliver_armed [OF assms(2)] show ?thesis by simp
  qed
qed

lemma run_armed:
  assumes "p < length (pendings s)"
    and "receipt (pendings s ! p) = Pending \<longrightarrow> timer_live (pendings s ! p)"
  shows "receipt (pendings (run D as s) ! p) = Pending \<longrightarrow> timer_live (pendings (run D as s) ! p)"
  using assms
proof (induction as arbitrary: s)
  case Nil then show ?case by simp
next
  case (Cons a as)
  have "p < length (pendings (step D a s))" using Cons.prems(1) step_length [of s D a] by simp
  from Cons.IH [OF this step_armed [OF Cons.prems]] show ?case by simp
qed

text \<open>Every request is settled once a tick has reached its deadline.\<close>

lemma run_deadline:
  assumes p: "p < length (pendings s)"
    and a: "receipt (pendings s ! p) = Pending \<longrightarrow> timer_live (pendings s ! p)"
    and d: "due (pendings s ! p) \<le> clock (run D as s) + d"
  shows "receipt (pendings (run D (as @ Tick d # late) s) ! p) \<noteq> Pending"
proof -
  let ?s1 = "run D as s"
  have p1: "p < length (pendings ?s1)" using p run_length [of s D as] by simp
  have "due (pendings ?s1 ! p) \<le> clock ?s1 + d" using d run_kept [OF p, of D as] by simp
  with run_armed [OF p a, of D as] p1
  have "receipt (pendings (advance d ?s1) ! p) \<noteq> Pending"
    by (simp add: expire_settles)
  moreover have "p < length (pendings (advance d ?s1))" using p1 by simp
  ultimately have "receipt (pendings (run D late (advance d ?s1)) ! p) \<noteq> Pending"
    by (simp add: run_settled)
  then show ?thesis by (simp add: run_append)
qed

text \<open>Before its deadline, a request that no response has reached is still listening.\<close>

lemma step_listening:
  assumes p: "p < length (pendings s)" and k: "key (pendings s ! p) = X"
    and w: "receipt (pendings s ! p) = Pending" "timer_live (pendings s ! p)" "listening (pendings s ! p)"
    and tr: "trace (step D a s) = trace s @ tr" and q: "\<forall>m. InboxResponse X m \<notin> set tr"
    and c: "clock (step D a s) < due (pendings s ! p)"
  shows "receipt (pendings (step D a s) ! p) = Pending \<and> timer_live (pendings (step D a s) ! p)
         \<and> listening (pendings (step D a s) ! p)"
proof -
  consider new where "pendings (step D a s) = pendings s @ new"
    | d where "a = Tick d" "pendings (step D a s) = map (expire (clock s + d)) (pendings s)"
    | m tr' where "pendings (step D a s) = map (deliver (msg_id m) m) (pendings s)"
        "trace (step D a s) = trace s @ tr'" "InboxResponse (msg_id m) m \<in> set tr'"
    using step_pendings [of D a s] by blast
  then show ?thesis
  proof cases
    case 1 with p w show ?thesis by (simp add: nth_append)
  next
    case 2
    with c have "\<not> due (pendings s ! p) \<le> clock s + d" by simp
    with 2 p w show ?thesis by (simp add: expire_def)
  next
    case 3
    from 3(2) tr have "tr' = tr" by simp
    with 3(3) q have "msg_id m \<noteq> X" by auto
    with k have "deliver (msg_id m) m (pendings s ! p) = pendings s ! p"
      by (simp add: deliver_other)
    with 3(1) p w show ?thesis by simp
  qed
qed

lemma run_listening:
  assumes "p < length (pendings s)" and "key (pendings s ! p) = X"
    and "receipt (pendings s ! p) = Pending" "timer_live (pendings s ! p)" "listening (pendings s ! p)"
    and "trace (run D as s) = trace s @ tr" and "\<forall>m. InboxResponse X m \<notin> set tr"
    and "clock (run D as s) < due (pendings s ! p)"
  shows "receipt (pendings (run D as s) ! p) = Pending \<and> listening (pendings (run D as s) ! p)"
  using assms
proof (induction as arbitrary: s tr)
  case Nil then show ?case by simp
next
  case (Cons a as)
  obtain t1 where t1: "trace (step D a s) = trace s @ t1" using step_trace by blast
  obtain t2 where t2: "trace (run D as (step D a s)) = trace (step D a s) @ t2"
    using run_trace by blast
  from t1 t2 Cons.prems(6) have "tr = t1 @ t2" by simp
  with Cons.prems(7) have q1: "\<forall>m. InboxResponse X m \<notin> set t1"
    and q2: "\<forall>m. InboxResponse X m \<notin> set t2" by auto
  have "clock (step D a s) \<le> clock (run D as (step D a s))" by (rule run_clock)
  with Cons.prems(8) have c1: "clock (step D a s) < due (pendings s ! p)" by simp
  note st = step_listening [OF Cons.prems(1-5) t1 q1 c1]
  note kp = step_kept [OF Cons.prems(1), of D a]
  have len: "p < length (pendings (step D a s))"
    using Cons.prems(1) step_length [of s D a] by simp
  have "receipt (pendings (run D as (step D a s)) ! p) = Pending
        \<and> listening (pendings (run D as (step D a s)) ! p)"
  proof (rule Cons.IH [OF len _ _ _ _ t2 q2])
    show "key (pendings (step D a s) ! p) = X" using kp Cons.prems(2) by simp
    show "receipt (pendings (step D a s) ! p) = Pending" using st by simp
    show "timer_live (pendings (step D a s) ! p)" using st by simp
    show "listening (pendings (step D a s) ! p)" using st by simp
    show "clock (run D as (step D a s)) < due (pendings (step D a s) ! p)"
      using kp Cons.prems(8) by simp
  qed
  then show ?case by simp
qed

section \<open>The concrete client, evaluated\<close>

lemma demo_client_eq:
  "demo_client =
     \<lparr>config = DEFAULT_CONFIG 1700000000, cfilter = \<lparr>kinds = [24133], since = 1700000000\<rparr>,
      pubkey = ''me'', relays = [''r1'', ''r2''], ready = False, sub = False, connects = [],
      pendings = [], dropped_sends = [], clock = 0,
      objs = (\<lambda>_. \<lparr>t_id = None, t_method = None, t_result = None\<rparr>),
      next_obj = 0, entropy = 0, trace = [Emit (NInfo ''filter:'' ''filter'')]\<rparr>"
  by (simp add: demo_client_def NostrClient_def demo_deps_def no_options_def get_node_config_def
      get_filter_config_def DEFAULT_CONFIG_def emit_def log_def)

lemmas demo_defs =
  demo_client_eq demo_deps_def demo_template_def demo_event_def demo_parse_def DEFAULT_CONFIG_def

lemmas op_defs =
  request_def create_event_def publish_def send_def alloc_def log_def emit_def handler_def
  decode_def route_def pong_def bounce_def inbox_author_emit_def inbox_request_emit_def
  inbox_response_emit_def advance_def expire_def deliver_def init_def connect_def subscribe_def
  close_def ping_def send_resume_def resume_def call_request_def Let_def

section \<open>Requests\<close>

lemma request_Receipt:
  assumes "request D s a r = (s1, Receipt p)"
  shows "p = length (pendings s)"
    and "\<exists>i. t_id (objs s a) = Some i \<and> i \<noteq> []
          \<and> pendings s1 = pendings s @
               [\<lparr>key = i, due = clock s + req_timeout (config s), timer_live = True,
                 listening = True, receipt = Pending\<rparr>]"
    and "config s1 = config s" and "clock s1 = clock s"
  using assms by (auto simp: request_cases split: if_splits sum.splits)

text \<open>
  C1. A call of \<open>request\<close> has registered a pending entry \<open>p\<close> under the id \<open>X\<close> of
  its template. The client then goes through any actions \<open>as\<close> during which nothing is
  emitted on the response inbox under \<open>X\<close>, and a tick takes the clock to the deadline
  (the time of the registration plus \<open>req_timeout\<close>) or beyond. Then the promise is
  rejected with the string \<open>timeout\<close>, and it stays so whatever happens later
  (\<open>late\<close>), responses under \<open>X\<close> included.
\<close>

theorem request_timeout:
  assumes "request D s a r = (s1, Receipt p)"
    and "t_id (objs s a) = Some X"
    and "trace (run D as s1) = trace s1 @ tr"
    and "\<forall>m. InboxResponse X m \<notin> set tr"
    and "clock s1 + req_timeout (config s1) \<le> clock (run D as s1) + d"
  shows "key (pendings s1 ! p) = X \<and> receipt (pendings s1 ! p) = Pending
    \<and> (\<forall>late. receipt (pendings (run D (as @ Tick d # late) s1) ! p) = Rejected (Literal ''timeout''))"
proof -
  from request_Receipt [OF assms(1)] assms(2)
  have p: "p < length (pendings s1)"
    and e: "pendings s1 ! p = \<lparr>key = X, due = clock s1 + req_timeout (config s1), timer_live = True,
                 listening = True, receipt = Pending\<rparr>"
    by auto
  let ?s2 = "run D as s1"
  have p2: "p < length (pendings ?s2)" using p run_length [of s1 D as] by simp
  have "due (pendings ?s2 ! p) = due (pendings s1 ! p)
    \<and> (receipt (pendings ?s2 ! p) = Pending \<and> timer_live (pendings ?s2 ! p)
        \<or> receipt (pendings ?s2 ! p) = Rejected (Literal ''timeout''))"
    using p e assms(3,4) by (intro run_quiet [where X = X]) simp_all
  with assms(5) e have "receipt (expire (clock ?s2 + d) (pendings ?s2 ! p)) = Rejected (Literal ''timeout'')"
    by (intro expire_due) simp_all
  with p2 have r: "receipt (pendings (advance d ?s2) ! p) = Rejected (Literal ''timeout'')"
    by simp
  have p3: "p < length (pendings (advance d ?s2))" using p2 by simp
  have "receipt (pendings (run D late (advance d ?s2)) ! p) = Rejected (Literal ''timeout'')" for late
    using run_settled [OF p3, of D late] r by simp
  then show ?thesis using e by (simp add: run_append)
qed

text \<open>
  A request with id \<open>abc\<close>; an answer to another request after 2 seconds, the deadline
  after 5, then the answer to \<open>abc\<close>.
\<close>

theorem request_timeout_witness:
  "receipt (pendings (run demo_deps
      ([Tick 2000, Inbound (demo_event ''bob'' ''Axyz'' ''sig'')]
        @ Tick 3000 # [Inbound (demo_event ''bob'' ''Aabc'' ''sig'')])
      (fst (request demo_deps (fst (alloc demo_template demo_client)) 0 ''bob''))) ! 0)
   = Rejected (Literal ''timeout'')"
proof -
  let ?s = "fst (alloc demo_template demo_client)"
  let ?s1 = "fst (request demo_deps ?s 0 ''bob'')"
  let ?ev = "demo_event ''bob'' ''Axyz'' ''sig''"
  let ?m = "\<lparr>msg_type = Accept, msg_id = ''xyz'', msg_method = [], msg_env = ?ev\<rparr>"
  have 1: "request demo_deps ?s 0 ''bob'' = (?s1, Receipt 0)"
    by (simp add: demo_defs op_defs)
  have 2: "t_id (objs ?s 0) = Some ''abc''"
    by (simp add: demo_defs op_defs)
  have 3: "trace (run demo_deps [Tick 2000, Inbound ?ev] ?s1)
      = trace ?s1 @ [Emit (NEvent ?ev), InboxResponse ''xyz'' ?m, InboxAuthor ''bob'' ?m,
                     Emit (NMessage ?m)]"
    by (simp add: demo_defs op_defs)
  have 4: "\<forall>m. InboxResponse ''abc'' m \<notin> set [Emit (NEvent ?ev), InboxResponse ''xyz'' ?m,
             InboxAuthor ''bob'' ?m, Emit (NMessage ?m)]"
    by simp
  have 5: "clock ?s1 + req_timeout (config ?s1) \<le> clock (run demo_deps [Tick 2000, Inbound ?ev] ?s1) + 3000"
    by (simp add: demo_defs op_defs)
  from request_timeout [OF 1 2 3 4 5] show ?thesis by blast
qed

lemma create_event_present:
  "t_id (objs s a) = Some i \<Longrightarrow>
     create_event D s a r =
       (log (CreateEnvelope (kind (config s)) (stringify D (objs s a)) r) s,
        create_envelope D (kind (config s)) (stringify D (objs s a)) r)"
  by (simp add: create_event_def Let_def)

text \<open>
  C2. Every call of \<open>request\<close> on a template with a (non-empty) id \<open>X\<close> ends in one
  of two ways. Either the codec fails, and asking it for the envelope is all that has
  happened: nothing is published. Or the call has done four things in this order: it has
  asked the codec for the envelope, set the timer, registered the handler on the
  response inbox under \<open>X\<close>, and only then handed the event to the pool. In the second
  case the entry is listening in the state in which the publication starts, and a
  message emitted on the response inbox under \<open>X\<close> at any moment before the deadline,
  after any actions \<open>as\<close> that emit no response under \<open>X\<close>, resolves the promise
  with that message.
\<close>

theorem request_registers_before_publish:
  assumes "request D s a r = (s1, res)"
    and "t_id (objs s a) = Some X" and "X \<noteq> []"
  shows "((\<exists>err. res = Rejects err
            \<and> create_envelope D (kind (config s)) (stringify D (objs s a)) r = Inl err
            \<and> trace s1 = trace s @ [CreateEnvelope (kind (config s)) (stringify D (objs s a)) r])
      \<or> (\<exists>ev. res = Receipt (length (pendings s))
            \<and> create_envelope D (kind (config s)) (stringify D (objs s a)) r = Inr ev
            \<and> trace s1 = trace s @
                [CreateEnvelope (kind (config s)) (stringify D (objs s a)) r,
                 SetTimeout (req_timeout (config s)),
                 Within X (req_timeout (config s)),
                 PoolPublish (relays s) ev]))
    \<and> (\<forall>p as tr m. res = Receipt p
          \<longrightarrow> trace (run D as s1) = trace s1 @ tr
          \<longrightarrow> (\<forall>m'. InboxResponse X m' \<notin> set tr)
          \<longrightarrow> clock (run D as s1) < clock s1 + req_timeout (config s1)
          \<longrightarrow> key (pendings s1 ! p) = X \<and> listening (pendings s1 ! p)
              \<and> receipt (pendings (inbox_response_emit X m (run D as s1)) ! p) = Resolved m)"
proof -
  have order: "(\<exists>err. res = Rejects err
            \<and> create_envelope D (kind (config s)) (stringify D (objs s a)) r = Inl err
            \<and> trace s1 = trace s @ [CreateEnvelope (kind (config s)) (stringify D (objs s a)) r])
      \<or> (\<exists>ev. res = Receipt (length (pendings s))
            \<and> create_envelope D (kind (config s)) (stringify D (objs s a)) r = Inr ev
            \<and> trace s1 = trace s @
                [CreateEnvelope (kind (config s)) (stringify D (objs s a)) r,
                 SetTimeout (req_timeout (config s)),
                 Within X (req_timeout (config s)),
                 PoolPublish (relays s) ev])"
    using assms
    by (auto simp: request_def create_event_present publish_def Let_def split: if_splits sum.splits)
  have match: "key (pendings s1 ! p) = X \<and> listening (pendings s1 ! p)
              \<and> receipt (pendings (inbox_response_emit X m (run D as s1)) ! p) = Resolved m"
    if res: "res = Receipt p" and tr: "trace (run D as s1) = trace s1 @ tr"
      and quiet: "\<forall>m'. InboxResponse X m' \<notin> set tr"
      and early: "clock (run D as s1) < clock s1 + req_timeout (config s1)"
    for p as tr m
  proof -
    from assms(1) res have rq: "request D s a r = (s1, Receipt p)" by simp
    from request_Receipt [OF rq] assms(2)
    have p: "p < length (pendings s1)"
      and e: "pendings s1 ! p = \<lparr>key = X, due = clock s1 + req_timeout (config s1), timer_live = True,
                 listening = True, receipt = Pending\<rparr>"
      by auto
    let ?s2 = "run D as s1"
    have p2: "p < length (pendings ?s2)" using p run_length [of s1 D as] by simp
    have "receipt (pendings ?s2 ! p) = Pending \<and> listening (pendings ?s2 ! p)"
      using p e tr quiet early by (intro run_listening [where X = X]) simp_all
    moreover have "key (pendings ?s2 ! p) = X" using run_kept [OF p, of D as] e by simp
    ultimately have "receipt (deliver X m (pendings ?s2 ! p)) = Resolved m"
      by (simp add: deliver_def)
    with p2 have "receipt (pendings (inbox_response_emit X m ?s2) ! p) = Resolved m" by simp
    with e show ?thesis by simp
  qed
  from order match show ?thesis by blast
qed

text \<open>
  A request with id \<open>abc\<close>, and its answer 4999 milliseconds after the publication.
\<close>

theorem request_registers_before_publish_witness:
  "trace (fst (request demo_deps (fst (alloc demo_template demo_client)) 0 ''bob''))
     = trace demo_client @
         [CreateEnvelope 24133 ''abc'' ''bob'', SetTimeout 5000, Within ''abc'' 5000,
          PoolPublish [''r1'', ''r2'']
            \<lparr>ev_id = ''abc'', ev_pubkey = ''me'', ev_content = ''abc'', ev_sig = ''sig'',
             ev_kind = 24133, ev_created_at = 0\<rparr>]
   \<and> receipt (pendings (inbox_response_emit ''abc''
         \<lparr>msg_type = Accept, msg_id = ''abc'', msg_method = [],
          msg_env = demo_event ''bob'' ''Aabc'' ''sig''\<rparr>
         (run demo_deps [Tick 4999]
            (fst (request demo_deps (fst (alloc demo_template demo_client)) 0 ''bob'')))) ! 0)
     = Resolved \<lparr>msg_type = Accept, msg_id = ''abc'', msg_method = [],
          msg_env = demo_event ''bob'' ''Aabc'' ''sig''\<rparr>"
proof -
  let ?s = "fst (alloc demo_template demo_client)"
  let ?s1 = "fst (request demo_deps ?s 0 ''bob'')"
  let ?m = "\<lparr>msg_type = Accept, msg_id = ''abc'', msg_method = [],
          msg_env = demo_event ''bob'' ''Aabc'' ''sig''\<rparr>"
  have 1: "request demo_deps ?s 0 ''bob'' = (?s1, Receipt 0)"
    by (simp add: demo_defs op_defs)
  have 2: "t_id (objs ?s 0) = Some ''abc''" and 3: "''abc'' \<noteq> []"
    by (simp_all add: demo_defs op_defs)
  have 4: "trace (run demo_deps [Tick 4999] ?s1) = trace ?s1 @ []"
    by (simp add: demo_defs op_defs)
  have 5: "\<forall>m'. InboxResponse ''abc'' m' \<notin> set []"
    by simp
  have 6: "clock (run demo_deps [Tick 4999] ?s1) < clock ?s1 + req_timeout (config ?s1)"
    by (simp add: demo_defs op_defs)
  note th = request_registers_before_publish [OF 1 2 3]
  have a: "trace ?s1 = trace demo_client @
         [CreateEnvelope 24133 ''abc'' ''bob'', SetTimeout 5000, Within ''abc'' 5000,
          PoolPublish [''r1'', ''r2'']
            \<lparr>ev_id = ''abc'', ev_pubkey = ''me'', ev_content = ''abc'', ev_sig = ''sig'',
             ev_kind = 24133, ev_created_at = 0\<rparr>]"
    by (simp add: demo_defs op_defs)
  from th [THEN conjunct2, rule_format, OF refl 4 5 [rule_format] 6, of ?m]
  have b: "receipt (pendings (inbox_response_emit ''abc'' ?m (run demo_deps [Tick 4999] ?s1)) ! 0)
      = Resolved ?m" by simp
  from a b show ?thesis by (rule conjI)
qed

text \<open>
  C5. When the template has no id, or the empty string as id, the call of \<open>request\<close>
  returns a promise that is already rejected, with \<open>Error('message id is required')\<close>,
  and stays so; nothing is thrown to the caller, \<open>request\<close> being \<open>async\<close>. The check
  is the first statement of the body: nothing of the client or its surroundings has
  changed (no id generated, no envelope asked for, no timer, no registration, no
  publication). The reason of the rejection is the \<open>Error\<close>, not the string
  \<open>timeout\<close> with which a deadline rejects.
\<close>

theorem request_without_id_rejects:
  assumes "t_id (objs s a) = None \<or> t_id (objs s a) = Some []"
  shows "call_request D s a r = (s, ReturnsPromise (Thrown (Error ''message id is required'')))
    \<and> request_promise (run D as s) (Thrown (Error ''message id is required''))
        = Rejected (Error ''message id is required'')
    \<and> Error ''message id is required'' \<noteq> Literal ''timeout''"
  using assms by (auto simp: call_request_def request_def)

text \<open>
  The claim that the call fails by throwing to its caller does not hold: on a template
  without id the call returns, and what it returns is a rejected promise.
\<close>

theorem request_without_id_counterexample:
  "t_id (objs (fst (alloc \<lparr>t_id = None, t_method = Some ''connect'', t_result = None\<rparr> demo_client)) 0) = None
   \<and> snd (call_request demo_deps
            (fst (alloc \<lparr>t_id = None, t_method = Some ''connect'', t_result = None\<rparr> demo_client)) 0 ''bob'')
       = ReturnsPromise (Thrown (Error ''message id is required''))
   \<and> snd (call_request demo_deps
            (fst (alloc \<lparr>t_id = None, t_method = Some ''connect'', t_result = None\<rparr> demo_client)) 0 ''bob'')
       \<noteq> ThrowsToCaller (Error ''message id is required'')
   \<and> request_promise demo_client (Thrown (Error ''message id is required''))
       = Rejected (Error ''message id is required'')"
  by (simp add: demo_defs op_defs)

text \<open>A template whose id is the empty string.\<close>

theorem request_without_id_rejects_witness:
  "call_request demo_deps
      (fst (alloc \<lparr>t_id = Some [], t_method = Some ''connect'', t_result = None\<rparr> demo_client)) 0 ''bob''
   = (fst (alloc \<lparr>t_id = Some [], t_method = Some ''connect'', t_result = None\<rparr> demo_client),
      ReturnsPromise (Thrown (Error ''message id is required'')))"
proof -
  have "t_id (objs (fst (alloc \<lparr>t_id = Some [], t_method = Some ''connect'', t_result = None\<rparr> demo_client)) 0) = None
     \<or> t_id (objs (fst (alloc \<lparr>t_id = Some [], t_method = Some ''connect'', t_result = None\<rparr> demo_client)) 0) = Some []"
    by (simp add: demo_defs op_defs)
  from request_without_id_rejects [OF this, of demo_deps "''bob''" "[]"] show ?thesis by blast
qed

section \<open>Ping\<close>

lemma ping_request:
  "ping D s r =
     request D (fst (alloc \<lparr>t_id = Some (gen_message_id D (entropy s)), t_method = Some ''ping'',
                              t_result = None\<rparr> (s\<lparr>entropy := Suc (entropy s)\<rparr>)))
       (next_obj s) r"
  by (simp add: ping_def Let_def alloc_def)

lemma then_accept_never_rejects: "then_accept_catch_false q \<noteq> Rejected e"
  by (cases q) simp_all

lemma then_accept_true:
  "(then_accept_catch_false q = Resolved True) = (\<exists>m. q = Resolved m \<and> msg_type m = Accept)"
  by (cases q) simp_all

lemma then_accept_rejected: "q = Rejected e \<Longrightarrow> then_accept_catch_false q = Resolved False"
  by simp

lemma then_accept_reject_typed:
  "q = Resolved m \<Longrightarrow> msg_type m = Reject \<Longrightarrow> then_accept_catch_false q = Resolved False"
  by simp

lemma then_accept_settled: "q \<noteq> Pending \<Longrightarrow> \<exists>b. then_accept_catch_false q = Resolved b"
  by (cases q) auto

text \<open>
  C6. After a call of \<open>ping\<close> and any actions \<open>as\<close>, the promise that \<open>ping\<close>
  returned is never rejected; it is resolved with \<open>true\<close> exactly when the promise of
  the request is resolved with a message of type \<open>accept\<close>; it is resolved with
  \<open>false\<close> when the request timed out, when the response has type \<open>reject\<close>, and
  when the request is rejected for any other reason. Once a tick has reached the
  deadline of the request it is resolved, with one boolean or the other.
\<close>

theorem ping_resolves_boolean:
  assumes "ping D s r = (s1, h)"
  shows "(\<forall>e. ping_promise (run D as s1) h \<noteq> Rejected e)
    \<and> (ping_promise (run D as s1) h = Resolved True
        \<longleftrightarrow> (\<exists>m. request_promise (run D as s1) h = Resolved m \<and> msg_type m = Accept))
    \<and> (request_promise (run D as s1) h = Rejected (Literal ''timeout'')
        \<longrightarrow> ping_promise (run D as s1) h = Resolved False)
    \<and> (\<forall>m. request_promise (run D as s1) h = Resolved m \<and> msg_type m = Reject
        \<longrightarrow> ping_promise (run D as s1) h = Resolved False)
    \<and> (\<forall>e. request_promise (run D as s1) h = Rejected e
        \<longrightarrow> ping_promise (run D as s1) h = Resolved False)
    \<and> (clock s1 + req_timeout (config s1) \<le> clock (run D as s1) + d
        \<longrightarrow> (\<exists>b. ping_promise (run D (as @ Tick d # late) s1) h = Resolved b))"
proof -
  have settles: "\<exists>b. ping_promise (run D (as @ Tick d # late) s1) h = Resolved b"
    if d: "clock s1 + req_timeout (config s1) \<le> clock (run D as s1) + d"
  proof (cases h)
    case (Receipt p)
    let ?s0 = "fst (alloc \<lparr>t_id = Some (gen_message_id D (entropy s)), t_method = Some ''ping'',
                              t_result = None\<rparr> (s\<lparr>entropy := Suc (entropy s)\<rparr>))"
    from assms Receipt have rq: "request D ?s0 (next_obj s) r = (s1, Receipt p)"
      by (simp add: ping_request)
    from request_Receipt [OF rq]
    have p: "p < length (pendings s1)"
      and e: "receipt (pendings s1 ! p) = Pending \<longrightarrow> timer_live (pendings s1 ! p)"
      and du: "due (pendings s1 ! p) = clock s1 + req_timeout (config s1)"
      by auto
    from du d have "due (pendings s1 ! p) \<le> clock (run D as s1) + d" by simp
    from run_deadline [OF p e this, of late]
    have "receipt (pendings (run D (as @ Tick d # late) s1) ! p) \<noteq> Pending" .
    moreover have "p < length (pendings (run D (as @ Tick d # late) s1))"
      using p run_length [of s1 D "as @ Tick d # late"] by simp
    ultimately show ?thesis
      using Receipt by (simp add: ping_promise_def then_accept_settled)
  qed (auto simp: ping_promise_def)
  have 1: "\<forall>e. ping_promise (run D as s1) h \<noteq> Rejected e"
    by (simp add: ping_promise_def then_accept_never_rejects)
  have 2: "ping_promise (run D as s1) h = Resolved True
        \<longleftrightarrow> (\<exists>m. request_promise (run D as s1) h = Resolved m \<and> msg_type m = Accept)"
    unfolding ping_promise_def by (rule then_accept_true)
  have 3: "\<forall>e. request_promise (run D as s1) h = Rejected e
        \<longrightarrow> ping_promise (run D as s1) h = Resolved False"
    unfolding ping_promise_def by (intro allI impI then_accept_rejected)
  have 4: "\<forall>m. request_promise (run D as s1) h = Resolved m \<and> msg_type m = Reject
        \<longrightarrow> ping_promise (run D as s1) h = Resolved False"
    unfolding ping_promise_def
    by (intro allI impI then_accept_reject_typed) (erule conjunct1, erule conjunct2)
  have 5: "request_promise (run D as s1) h = Rejected (Literal ''timeout'')
        \<longrightarrow> ping_promise (run D as s1) h = Resolved False"
    using 3 by (rule spec)
  have 6: "clock s1 + req_timeout (config s1) \<le> clock (run D as s1) + d
        \<longrightarrow> (\<exists>b. ping_promise (run D (as @ Tick d # late) s1) h = Resolved b)"
    using settles by (rule impI)
  show ?thesis
    by (intro conjI) (rule 1, rule 2, rule 5, rule 4, rule 3, rule 6)
qed


theorem ping_resolves_boolean_witness:
  "ping_promise
     (run demo_deps [Inbound (demo_event ''bob'' ''Am'' ''sig'')] (fst (ping demo_deps demo_client ''bob'')))
     (snd (ping demo_deps demo_client ''bob'')) = Resolved True
   \<and> (\<exists>b. ping_promise
          (run demo_deps ([Inbound (demo_event ''bob'' ''Am'' ''sig'')] @ Tick 5000 # [])
             (fst (ping demo_deps demo_client ''bob'')))
          (snd (ping demo_deps demo_client ''bob'')) = Resolved b)"
proof -
  let ?s1 = "fst (ping demo_deps demo_client ''bob'')"
  let ?h = "snd (ping demo_deps demo_client ''bob'')"
  let ?as = "[Inbound (demo_event ''bob'' ''Am'' ''sig'')]"
  have 1: "ping demo_deps demo_client ''bob'' = (?s1, ?h)" by simp
  have 2: "request_promise (run demo_deps ?as ?s1) ?h
      = Resolved \<lparr>msg_type = Accept, msg_id = ''m'', msg_method = [],
                  msg_env = demo_event ''bob'' ''Am'' ''sig''\<rparr>"
    by (simp add: demo_defs op_defs)
  have 3: "clock ?s1 + req_timeout (config ?s1) \<le> clock (run demo_deps ?as ?s1) + 5000"
    by (simp add: demo_defs op_defs)
  from ping_resolves_boolean [OF 1, of ?as 5000 "[]"] 2 3 show ?thesis by simp
qed

section \<open>The inbound handler\<close>

text \<open>
  C7. For every inbound event whose decryption or parsing fails in \<open>_handler\<close> - the
  handler attempts them for every event that passes its first line, that is every event
  not authored by the client's own identity - the handler emits, after the \<open>event\<close>
  notification, one \<open>error\<close> notification with the error and one \<open>bounced\<close>
  notification with the id of the event and the normalised error, and nothing else: no
  emission on an inbox, no \<open>message\<close> notification, no pending request touched. The
  handler returns: the failure is caught.
\<close>

theorem handler_bounces_undecodable:
  assumes "ev_pubkey ev \<noteq> pubkey s" and "decode D ev = Inl err"
  shows "trace (handler D s ev) =
           trace s @ [Emit (NEvent ev), Emit (NError err),
                      Emit (NBounced (ev_id ev) (parse_error D err))]
       \<and> pendings (handler D s ev) = pendings s"
  using assms by (simp add: handler_def)

text \<open>An event of another identity that the codec cannot decrypt.\<close>

theorem handler_bounces_undecodable_witness:
  "trace (handler demo_deps demo_client (demo_event ''bob'' ''Aabc'' ''forged'')) =
     trace demo_client @
       [Emit (NEvent (demo_event ''bob'' ''Aabc'' ''forged'')),
        Emit (NError (Error ''bad signature'')),
        Emit (NBounced ''e1'' ''bad signature'')]"
proof -
  have 1: "ev_pubkey (demo_event ''bob'' ''Aabc'' ''forged'') \<noteq> pubkey demo_client"
    by (simp add: demo_defs)
  have 2: "decode demo_deps (demo_event ''bob'' ''Aabc'' ''forged'') = Inl (Error ''bad signature'')"
    by (simp add: demo_defs op_defs)
  have 3: "ev_id (demo_event ''bob'' ''Aabc'' ''forged'') = ''e1''"
    and 4: "parse_error demo_deps (Error ''bad signature'') = ''bad signature''"
    by (simp_all add: demo_defs)
  from handler_bounces_undecodable [OF 1 2] 3 4 show ?thesis by simp
qed

text \<open>A dropped call of \<open>send\<close> waits until it is resumed.\<close>

lemma other_dropped_sends:
  "dropped_sends (advance d s) = dropped_sends s"
  "dropped_sends (init s) = dropped_sends s"
  "dropped_sends (fst (publish D s e)) = dropped_sends s"
  "dropped_sends (fst (send D s a r)) = dropped_sends s"
  "dropped_sends (fst (request D s a r)) = dropped_sends s"
  "dropped_sends (fst (ping D s r)) = dropped_sends s"
  "dropped_sends (fst (connect s t)) = dropped_sends s"
  "dropped_sends (close s) = dropped_sends s"
  "dropped_sends (bounce D ev err s) = dropped_sends s"
  "dropped_sends (inbox_author_emit k m s) = dropped_sends s"
  "dropped_sends (inbox_request_emit k m s) = dropped_sends s"
  "dropped_sends (inbox_response_emit k m s) = dropped_sends s"
  by (simp_all add: advance_def init_def publish_def send_fst request_cases ping_fst alloc_def
      connect_def subscribe_def close_def bounce_def inbox_author_emit_def inbox_request_emit_def
      inbox_response_emit_def Let_def split: sum.splits)

lemma handler_dropped_sends: "\<exists>new. dropped_sends (handler D s ev) = dropped_sends s @ new"
proof (cases "ev_pubkey ev = pubkey s")
  case True then show ?thesis by (simp add: handler_def)
next
  case False
  show ?thesis
  proof (cases "decode D ev")
    case (Inl err) with False show ?thesis by (simp add: handler_def other_dropped_sends)
  next
    case (Inr m)
    show ?thesis
    proof (cases "route D (emit (NEvent ev) s) m")
      case (Inl err) with False Inr show ?thesis by (simp add: handler_def other_dropped_sends)
    next
      case r: (Inr s2)
      have "\<exists>new. dropped_sends s2 = dropped_sends s @ new"
        using route_Inr [OF r] by simp
      with False Inr r show ?thesis by (simp add: handler_def other_dropped_sends)
    qed
  qed
qed

lemma handler_dropped_send:
  assumes "k < length (dropped_sends s)"
  shows "k < length (dropped_sends (handler D s ev))
       \<and> dropped_sends (handler D s ev) ! k = dropped_sends s ! k"
proof -
  obtain new where "dropped_sends (handler D s ev) = dropped_sends s @ new"
    using handler_dropped_sends by blast
  with assms show ?thesis by (simp add: nth_append)
qed

lemma step_dropped_send:
  assumes "k < length (dropped_sends s)" and "a \<noteq> Resume k"
  shows "k < length (dropped_sends (step D a s))
       \<and> dropped_sends (step D a s) ! k = dropped_sends s ! k"
proof (cases a)
  case (Inbound ev)
  show ?thesis unfolding Inbound step.simps using assms(1) by (rule handler_dropped_send)
next
  case (Resume j)
  with assms have "j \<noteq> k" by simp
  with assms(1) Resume show ?thesis
    by (simp add: resume_eq split: option.splits sum.splits)
qed (use assms(1) in \<open>simp_all add: other_dropped_sends\<close>)

lemma run_dropped_send:
  assumes "k < length (dropped_sends s)" and "Resume k \<notin> set as"
  shows "k < length (dropped_sends (run D as s))
       \<and> dropped_sends (run D as s) ! k = dropped_sends s ! k"
  using assms
proof (induction as arbitrary: s)
  case Nil then show ?case by simp
next
  case (Cons a as)
  from Cons.prems have "a \<noteq> Resume k" and q: "Resume k \<notin> set as" by auto
  from step_dropped_send [OF Cons.prems(1) this(1), of D]
  have 1: "k < length (dropped_sends (step D a s))"
    and 2: "dropped_sends (step D a s) ! k = dropped_sends s ! k" by simp_all
  from Cons.IH [OF 1 q] 2 show ?case by simp
qed

lemma pong_ping:
  assumes "msg_method m = ''ping''"
  shows "\<exists>s'. pong D s m = Inr s'
    \<and> trace s' = trace s @
         [CreateEnvelope (kind (config s))
            (stringify D \<lparr>t_id = Some (msg_id m), t_method = None, t_result = Some ''pong''\<rparr>)
            (ev_pubkey (msg_env m))]
    \<and> dropped_sends s' = dropped_sends s @
         [Some (create_envelope D (kind (config s))
            (stringify D \<lparr>t_id = Some (msg_id m), t_method = None, t_result = Some ''pong''\<rparr>)
            (ev_pubkey (msg_env m)))]
    \<and> relays s' = relays s"
  using assms
  by (simp add: pong_def alloc_def pong_template_def create_event_def Let_def)

text \<open>
  C9. An inbound event of another identity decodes to a message of type \<open>request\<close> with
  method \<open>ping\<close>. Then \<open>_handler\<close> does exactly this, in this order: it emits the
  \<open>event\<close> notification; it starts to send the reply, asking the codec for the envelope
  of the serialised template \<open>{ result: 'pong', id }\<close>, with the id of the request,
  addressed to the public key of the envelope the request came in; it emits the message
  on the author inbox and as \<open>message\<close> notification. Nothing is emitted on the request
  inbox. The call of \<open>send\<close> is left waiting for the envelope; when it goes on, at once
  or after any actions \<open>as\<close> other than that, the envelope is handed to the pool, for
  the relays of the client, if the codec has returned one, and the rejection goes
  unhandled if it has not.
\<close>

theorem ping_request_answered:
  assumes "ev_pubkey ev \<noteq> pubkey s" and "decode D ev = Inr m"
    and "msg_type m = Request" and "msg_method m = ''ping''"
  shows "trace (handler D s ev) = trace s @
           [Emit (NEvent ev),
            CreateEnvelope (kind (config s))
              (stringify D \<lparr>t_id = Some (msg_id m), t_method = None, t_result = Some ''pong''\<rparr>)
              (ev_pubkey (msg_env m)),
            InboxAuthor (ev_pubkey (msg_env m)) m,
            Emit (NMessage m)]
    \<and> (\<forall>k x. InboxRequest k x \<notin> set (drop (length (trace s)) (trace (handler D s ev))))
    \<and> dropped_sends (handler D s ev) = dropped_sends s @
           [Some (create_envelope D (kind (config s))
              (stringify D \<lparr>t_id = Some (msg_id m), t_method = None, t_result = Some ''pong''\<rparr>)
              (ev_pubkey (msg_env m)))]
    \<and> (Resume (length (dropped_sends s)) \<notin> set as \<longrightarrow>
         trace (run D (as @ [Resume (length (dropped_sends s))]) (handler D s ev))
           = trace (run D as (handler D s ev)) @
             (case create_envelope D (kind (config s))
                (stringify D \<lparr>t_id = Some (msg_id m), t_method = None, t_result = Some ''pong''\<rparr>)
                (ev_pubkey (msg_env m)) of
                Inl err \<Rightarrow> [UnhandledRejection err]
              | Inr reply \<Rightarrow> [PoolPublish (relays s) reply]))"
proof -
  let ?x = "create_envelope D (kind (config s))
              (stringify D \<lparr>t_id = Some (msg_id m), t_method = None, t_result = Some ''pong''\<rparr>)
              (ev_pubkey (msg_env m))"
  let ?k = "length (dropped_sends s)"
  let ?h = "handler D s ev"
  obtain s2 where s2: "pong D (emit (NEvent ev) s) m = Inr s2"
    and t2: "trace s2 = trace (emit (NEvent ev) s) @
         [CreateEnvelope (kind (config (emit (NEvent ev) s)))
            (stringify D \<lparr>t_id = Some (msg_id m), t_method = None, t_result = Some ''pong''\<rparr>)
            (ev_pubkey (msg_env m))]"
    and d2: "dropped_sends s2 = dropped_sends (emit (NEvent ev) s) @
         [Some (create_envelope D (kind (config (emit (NEvent ev) s)))
            (stringify D \<lparr>t_id = Some (msg_id m), t_method = None, t_result = Some ''pong''\<rparr>)
            (ev_pubkey (msg_env m)))]"
    using pong_ping [OF assms(4), of D "emit (NEvent ev) s"] by (elim exE conjE)
  have h: "?h = emit (NMessage m) (inbox_author_emit (ev_pubkey (msg_env m)) m s2)"
    using assms s2 by (simp add: handler_def route_def)
  have tr: "trace ?h = trace s @
           [Emit (NEvent ev),
            CreateEnvelope (kind (config s))
              (stringify D \<lparr>t_id = Some (msg_id m), t_method = None, t_result = Some ''pong''\<rparr>)
              (ev_pubkey (msg_env m)),
            InboxAuthor (ev_pubkey (msg_env m)) m,
            Emit (NMessage m)]"
    by (simp add: h t2)
  have dr: "dropped_sends ?h = dropped_sends s @ [Some ?x]"
    by (simp add: h d2 inbox_author_emit_def)
  have later: "trace (run D (as @ [Resume ?k]) ?h) = trace (run D as ?h) @
      (case ?x of Inl err \<Rightarrow> [UnhandledRejection err] | Inr reply \<Rightarrow> [PoolPublish (relays s) reply])"
    if quiet: "Resume ?k \<notin> set as"
  proof -
    have k: "?k < length (dropped_sends ?h)" and e: "dropped_sends ?h ! ?k = Some ?x"
      by (simp_all add: dr)
    from run_dropped_send [OF k quiet, of D] e
    have "?k < length (dropped_sends (run D as ?h))"
      and "dropped_sends (run D as ?h) ! ?k = Some ?x" by simp_all
    moreover have "relays (run D as ?h) = relays s" by simp
    ultimately show ?thesis
      by (simp add: run_append resume_eq split: sum.splits)
  qed
  have nr: "\<forall>k x. InboxRequest k x \<notin> set (drop (length (trace s)) (trace ?h))"
    by (simp add: tr)
  from tr nr dr later show ?thesis by blast
qed

text \<open>
  A keepalive request with id \<open>p1\<close> from \<open>bob\<close>; the reply goes on after a second and
  another inbound event.
\<close>

theorem ping_request_answered_witness:
  "trace (handler demo_deps demo_client (demo_event ''bob'' ''Pp1'' ''sig''))
     = trace demo_client @
         [Emit (NEvent (demo_event ''bob'' ''Pp1'' ''sig'')),
          CreateEnvelope 24133 ''p1=pong'' ''bob'',
          InboxAuthor ''bob''
            \<lparr>msg_type = Request, msg_id = ''p1'', msg_method = ''ping'',
             msg_env = demo_event ''bob'' ''Pp1'' ''sig''\<rparr>,
          Emit (NMessage
            \<lparr>msg_type = Request, msg_id = ''p1'', msg_method = ''ping'',
             msg_env = demo_event ''bob'' ''Pp1'' ''sig''\<rparr>)]
   \<and> trace (run demo_deps ([Tick 1000] @ [Resume 0])
        (handler demo_deps demo_client (demo_event ''bob'' ''Pp1'' ''sig'')))
     = trace (run demo_deps [Tick 1000]
        (handler demo_deps demo_client (demo_event ''bob'' ''Pp1'' ''sig''))) @
         [PoolPublish [''r1'', ''r2'']
            \<lparr>ev_id = ''p1=pong'', ev_pubkey = ''me'', ev_content = ''p1=pong'', ev_sig = ''sig'',
             ev_kind = 24133, ev_created_at = 0\<rparr>]"
proof -
  let ?ev = "demo_event ''bob'' ''Pp1'' ''sig''"
  let ?m = "\<lparr>msg_type = Request, msg_id = ''p1'', msg_method = ''ping'', msg_env = ?ev\<rparr>"
  have 1: "ev_pubkey ?ev \<noteq> pubkey demo_client"
    by (simp add: demo_defs)
  have 2: "decode demo_deps ?ev = Inr ?m"
    by (simp add: demo_defs op_defs)
  have 3: "msg_type ?m = Request" and 4: "msg_method ?m = ''ping''" by simp_all
  have 5: "Resume (length (dropped_sends demo_client)) \<notin> set [Tick 1000]" by simp
  have 6: "length (dropped_sends demo_client) = 0" "kind (config demo_client) = 24133"
    "relays demo_client = [''r1'', ''r2'']" "ev_pubkey (msg_env ?m) = ''bob''"
    by (simp_all add: demo_defs)
  have 7: "stringify demo_deps \<lparr>t_id = Some (msg_id ?m), t_method = None, t_result = Some ''pong''\<rparr>
      = ''p1=pong''"
    by (simp add: demo_deps_def)
  have 8: "create_envelope demo_deps 24133 ''p1=pong'' ''bob''
      = Inr \<lparr>ev_id = ''p1=pong'', ev_pubkey = ''me'', ev_content = ''p1=pong'', ev_sig = ''sig'',
             ev_kind = 24133, ev_created_at = 0\<rparr>"
    by (simp add: demo_deps_def)
  note th = ping_request_answered [OF 1 2 3 4, of "[Tick 1000]"]
  from th [THEN conjunct1] have a: "trace (handler demo_deps demo_client ?ev)
     = trace demo_client @
         [Emit (NEvent ?ev), CreateEnvelope 24133 ''p1=pong'' ''bob'',
          InboxAuthor ''bob'' ?m, Emit (NMessage ?m)]"
    unfolding 6 7 by simp
  from th [THEN conjunct2, THEN conjunct2, THEN conjunct2, rule_format, OF 5]
  have b: "trace (run demo_deps ([Tick 1000] @ [Resume 0]) (handler demo_deps demo_client ?ev))
     = trace (run demo_deps [Tick 1000] (handler demo_deps demo_client ?ev)) @
         [PoolPublish [''r1'', ''r2'']
            \<lparr>ev_id = ''p1=pong'', ev_pubkey = ''me'', ev_content = ''p1=pong'', ev_sig = ''sig'',
             ev_kind = 24133, ev_created_at = 0\<rparr>]"
    unfolding 6 7 8 by simp
  from a b show ?thesis by (rule conjI)
qed

section \<open>Connecting\<close>

lemma step_connects:
  "connects (step D a s) =
     (case a of
        Eose \<Rightarrow> map (\<lambda>p. resolve p ()) (connects s)
      | CallConnect t \<Rightarrow> connects s @ [Pending]
      | _ \<Rightarrow> connects s)"
  by (cases a) simp_all

lemma step_connects_length: "length (connects s) \<le> length (connects (step D a s))"
  by (cases a) simp_all

lemma step_connect_entry:
  assumes "c < length (connects s)"
  shows "connects (step D a s) ! c = (if a = Eose then resolve (connects s ! c) () else connects s ! c)"
  using assms by (cases a) (simp_all add: nth_append)

lemma run_connect_entry:
  assumes "c < length (connects s)" and "connects s ! c = Pending \<or> connects s ! c = Resolved ()"
  shows "connects (run D as s) ! c = (if Eose \<in> set as then Resolved () else connects s ! c)"
  using assms
proof (induction as arbitrary: s)
  case Nil then show ?case by simp
next
  case (Cons a as)
  have len: "c < length (connects (step D a s))"
    using Cons.prems(1) step_connects_length [of s D a] by simp
  have e: "connects (step D a s) ! c = (if a = Eose then resolve (connects s ! c) () else connects s ! c)"
    using Cons.prems(1) by (rule step_connect_entry)
  with Cons.prems(2)
  have ok: "connects (step D a s) ! c = Pending \<or> connects (step D a s) ! c = Resolved ()"
    by auto
  from Cons.IH [OF len ok] e Cons.prems(2) show ?case by auto
qed

text \<open>
  C8. The argument of \<open>connect\<close> is not kept: the configuration is as before, so the
  deadline of every later request is the time of its registration plus the configured
  \<open>req_timeout\<close>, whatever was passed to \<open>connect\<close>. Nor does it bound \<open>connect\<close>:
  no timer is set, the promise returned is pending for as long as the end of the stored
  events has not come, however much time passes, it is resolved once it has come, and it
  is never rejected.
\<close>

theorem connect_ignores_timeout:
  assumes "connect s t = (s1, c)"
  shows "config s1 = config s \<and> pendings s1 = pendings s \<and> connects s1 ! c = Pending
    \<and> (\<forall>e. connects (run D as s1) ! c \<noteq> Rejected e)
    \<and> (Eose \<notin> set as \<longrightarrow> connects (run D as s1) ! c = Pending)
    \<and> (Eose \<in> set as \<longrightarrow> connects (run D as s1) ! c = Resolved ())
    \<and> (\<forall>a r s2 p. request D (run D as s1) a r = (s2, Receipt p)
          \<longrightarrow> due (pendings s2 ! p) = clock (run D as s1) + req_timeout (config s))"
proof -
  from assms have s1: "s1 = fst (connect s t)" and c: "c = snd (connect s t)" by simp_all
  have len: "c < length (connects s1)" and pe: "connects s1 ! c = Pending"
    by (simp_all add: s1 c)
  have cf: "config s1 = config s" and ps: "pendings s1 = pendings s" by (simp_all add: s1)
  have run: "connects (run D as s1) ! c = (if Eose \<in> set as then Resolved () else Pending)"
    using run_connect_entry [OF len, of D as] pe by simp
  have due: "due (pendings s2 ! p) = clock (run D as s1) + req_timeout (config s)"
    if "request D (run D as s1) a r = (s2, Receipt p)" for a r s2 p
    using request_Receipt [OF that] cf by auto
  from cf ps pe run due show ?thesis by auto
qed

text \<open>
  The claim that the argument becomes the timeout of later requests fails: after
  \<open>connect(1000)\<close> at time 0, a request is due at 5000.
\<close>

theorem connect_timeout_counterexample:
  "snd (request demo_deps (fst (alloc demo_template (fst (connect demo_client (Some 1000))))) 0 ''bob'')
     = Receipt 0
   \<and> clock (fst (connect demo_client (Some 1000))) = 0
   \<and> due (pendings (fst (request demo_deps
              (fst (alloc demo_template (fst (connect demo_client (Some 1000))))) 0 ''bob'')) ! 0)
     = 5000
   \<and> due (pendings (fst (request demo_deps
              (fst (alloc demo_template (fst (connect demo_client (Some 1000))))) 0 ''bob'')) ! 0)
     \<noteq> clock (fst (connect demo_client (Some 1000))) + 1000"
  by (simp add: demo_defs op_defs)

theorem connect_ignores_timeout_witness:
  "connects (run demo_deps [Tick 1000, Tick 600000] (fst (connect demo_client (Some 1000)))) ! 0 = Pending
   \<and> connects (run demo_deps [Tick 1000, Tick 600000, Eose] (fst (connect demo_client (Some 1000)))) ! 0
       = Resolved ()"
proof -
  have 1: "connect demo_client (Some 1000) = (fst (connect demo_client (Some 1000)), 0)"
    by (simp add: demo_defs op_defs)
  have 2: "Eose \<notin> set [Tick 1000, Tick 600000]" and 3: "Eose \<in> set [Tick 1000, Tick 600000, Eose]"
    by simp_all
  from connect_ignores_timeout [OF 1, of demo_deps "[Tick 1000, Tick 600000]"] 2
       connect_ignores_timeout [OF 1, of demo_deps "[Tick 1000, Tick 600000, Eose]"] 3
  show ?thesis by blast
qed

section \<open>Creating an event\<close>

text \<open>
  C10. \<open>create_event\<close> writes to the caller's template, at its address \<open>a\<close>: after the
  call the template has an id, the one it had or, if it had none, the one just
  generated; a template that had an id is unchanged; nothing else of the template and no
  other template changes. The payload handed to the codec is the serialisation of the
  template as it is after the call, so the id on the wire is the one the caller reads
  from the template.
\<close>

theorem create_event_template_id:
  assumes "create_event D s a r = (s', res)"
  shows "t_id (objs s' a) = Some (case t_id (objs s a) of None \<Rightarrow> gen_message_id D (entropy s) | Some i \<Rightarrow> i)
    \<and> (t_id (objs s a) \<noteq> None \<longrightarrow> objs s' = objs s)
    \<and> t_method (objs s' a) = t_method (objs s a)
    \<and> t_result (objs s' a) = t_result (objs s a)
    \<and> (\<forall>b. b \<noteq> a \<longrightarrow> objs s' b = objs s b)
    \<and> trace s' = trace s @ [CreateEnvelope (kind (config s)) (stringify D (objs s' a)) r]
    \<and> res = create_envelope D (kind (config s)) (stringify D (objs s' a)) r"
  using assms by (auto simp: create_event_def Let_def split: option.splits)

theorem create_event_template_id_witness:
  "t_id (objs (fst (create_event demo_deps
            (fst (alloc \<lparr>t_id = None, t_method = Some ''connect'', t_result = None\<rparr> demo_client)) 0 ''bob'')) 0)
     = Some ''m''
   \<and> trace (fst (create_event demo_deps
            (fst (alloc \<lparr>t_id = None, t_method = Some ''connect'', t_result = None\<rparr> demo_client)) 0 ''bob''))
     = trace demo_client @ [CreateEnvelope 24133 ''m'' ''bob'']"
proof -
  let ?s = "fst (alloc \<lparr>t_id = None, t_method = Some ''connect'', t_result = None\<rparr> demo_client)"
  have 1: "create_event demo_deps ?s 0 ''bob''
      = (fst (create_event demo_deps ?s 0 ''bob''), snd (create_event demo_deps ?s 0 ''bob''))"
    by simp
  have 2: "t_id (objs ?s 0) = None" "entropy ?s = 0" "trace ?s = trace demo_client"
    "kind (config ?s) = 24133" "t_result (objs ?s 0) = None"
    by (simp_all add: demo_defs op_defs)
  from create_event_template_id [OF 1] 2 show ?thesis
    by (simp add: demo_deps_def)
qed

end
